theory Spec2Isabelle
  imports Main "HOL-Library.Char_ord" "HOL-Library.List_Lexorder" "HOL-Library.Product_Lexorder"
    "HOL-Library.Sublist"
begin

section \<open>Python values and errors\<close>

text \<open>
  Python strings are modelled as \<open>string\<close> (lists of characters), Python lists as HOL
  lists, and every \<^verbatim>\<open>raise\<close>, failed \<^verbatim>\<open>assert\<close> and out-of-range index of the
  source as a value of \<open>error\<close>, returned on the left of a sum.
\<close>

datatype error =
    RuntimeError_cannot_parse
  | RuntimeError_already_requested
  | RuntimeError_unsupported_platform
  | AssertionError
  | IndexError
  | PackageNotFound
  | BoostError
  | OSError

subsection \<open>\<^verbatim>\<open>uniq\<close> (utils.py)\<close>

text \<open>
  \<^verbatim>\<open>
  def uniq(seq):
    seen = set()
    seen_add = seen.add
    return [x for x in seq if x not in seen and not seen_add(x)]
  \<close>
  The comprehension threads the set \<open>seen\<close> through the elements from left to right.
\<close>

fun uniq_from :: "'a set \<Rightarrow> 'a list \<Rightarrow> 'a list" where
  "uniq_from seen [] = []"
| "uniq_from seen (x # seq) =
     (if x \<notin> seen then x # uniq_from (insert x seen) seq else uniq_from seen seq)"

definition uniq :: "'a list \<Rightarrow> 'a list" where
  "uniq seq = uniq_from {} seq"

subsection \<open>String primitives\<close>

text \<open>\<^verbatim>\<open>s.split(sep)\<close> for a one-character separator: always at least one piece.\<close>

fun str_split :: "char \<Rightarrow> string \<Rightarrow> string list" where
  "str_split sep [] = [[]]"
| "str_split sep (c # s) =
     (if c = sep then [] # str_split sep s
      else (case str_split sep s of
              [] \<Rightarrow> [[c]]
            | p # ps \<Rightarrow> (c # p) # ps))"

text \<open>
  \<^verbatim>\<open>os.path.join(a, b)\<close> with POSIX conventions (posixpath): an absolute second
  component replaces the first; otherwise the components are joined by one slash.
\<close>

definition os_path_join :: "string \<Rightarrow> string \<Rightarrow> string" where
  "os_path_join a b =
     (if b \<noteq> [] \<and> hd b = CHR ''/'' then b
      else if a = [] \<or> last a = CHR ''/'' then a @ b
      else a @ ''/'' @ b)"

section \<open>The filesystem probe (utils.py)\<close>

text \<open>
  What the code reads from the process and the machine is gathered in a record:
  the value of the environment variable \<^verbatim>\<open>BOB_PREFIX_PATH\<close> (absent or a string),
  \<^verbatim>\<open>os.pathsep\<close>, the two filesystem queries \<^verbatim>\<open>glob.glob\<close> and
  \<^verbatim>\<open>os.path.exists\<close>, and the values of \<^verbatim>\<open>platform.system()\<close>, \<^verbatim>\<open>sys.platform\<close>,
  \<^verbatim>\<open>platform.architecture()[0]\<close> and \<^verbatim>\<open>sys.version_info[0]\<close>.
\<close>

record os_env =
  BOB_PREFIX_PATH :: "string option"
  pathsep :: char
  glob :: "string \<Rightarrow> string list"
  path_exists :: "string \<Rightarrow> bool"
  platform_system :: string
  sys_platform :: string
  platform_architecture :: string
  python_major :: nat

definition DEFAULT_PREFIXES :: "string list" where
  "DEFAULT_PREFIXES = [''/usr'', ''/usr/local'', ''/opt/local'']"

text \<open>
  Lines 51-65 of \<^verbatim>\<open>find_file\<close>: the list \<open>search\<close> before subpaths are combined and
  before the existence filter. \<^verbatim>\<open>if prefixes:\<close> is false for \<^verbatim>\<open>None\<close> and for the
  empty list.
\<close>

definition find_file_search :: "os_env \<Rightarrow> string list option \<Rightarrow> string list" where
  "find_file_search e prfxs =
     (let search = [];
          search = (case BOB_PREFIX_PATH e of
                      Some v \<Rightarrow> search @ str_split (pathsep e) v
                    | None \<Rightarrow> search);
          search = (case prfxs of
                      Some ps \<Rightarrow> if ps \<noteq> [] then search @ ps else search
                    | None \<Rightarrow> search);
          search = search @ DEFAULT_PREFIXES
      in uniq search)"

definition find_file :: "os_env \<Rightarrow> string \<Rightarrow> string list option \<Rightarrow> string list option \<Rightarrow> string list"
  where
  "find_file e name subpaths prfxs =
     (let search = find_file_search e prfxs;
          search = (case subpaths of
                      Some sps \<Rightarrow>
                        if sps \<noteq> []
                        then concat (map (\<lambda>s. map (\<lambda>p. os_path_join s p) sps @ [s]) search)
                        else search
                    | None \<Rightarrow> search);
          search = concat (map (glob e) search)
      in filter (path_exists e) (map (\<lambda>path. os_path_join path name) search))"

section \<open>Requirement strings (\<^verbatim>\<open>__init__.py\<close>)\<close>

subsection \<open>The regular expression split\<close>

text \<open>
  \<^verbatim>\<open>split(r'\s*(?P<cmp>[<>=]+)\s*', requirement)\<close>. A character of a string is a
  code point below 256. The characters matched by \<^verbatim>\<open>\s\<close>, which are also the ones
  \<^verbatim>\<open>str.isspace\<close> accepts and \<^verbatim>\<open>str.strip\<close> removes, are among these code points
  the six ASCII whitespace characters, the four separators 0x1C to 0x1F, the next-line
  character 0x85 and the no-break space 0xA0.
\<close>

definition is_space :: "char \<Rightarrow> bool" where
  "is_space c \<longleftrightarrow>
     c \<in> {CHR '' '', CHR 0x09, CHR 0x0A, CHR 0x0B, CHR 0x0C, CHR 0x0D,
          CHR 0x1C, CHR 0x1D, CHR 0x1E, CHR 0x1F, CHR 0x85, CHR 0xA0}"

definition is_cmp :: "char \<Rightarrow> bool" where
  "is_cmp c \<longleftrightarrow> c \<in> {CHR ''<'', CHR ''>'', CHR ''=''}"

text \<open>
  The pattern anchored at the front of \<open>s\<close>. Both stars and the plus are greedy, and
  giving back whitespace never helps (the character after a shorter whitespace run is
  whitespace, not a comparator), so the pattern matches here exactly when a comparator
  character follows the leading whitespace. The result is the captured group and the
  text after the match.
\<close>

definition cmp_match :: "string \<Rightarrow> (string \<times> string) option" where
  "cmp_match s =
     (let s1 = dropWhile is_space s;
          cmp = takeWhile is_cmp s1
      in if cmp = [] then None
         else Some (cmp, dropWhile is_space (dropWhile is_cmp s1)))"

text \<open>
  \<^verbatim>\<open>re.split\<close> with one capturing group: the text scanned since the last match is
  \<open>piece\<close>; at the leftmost match the piece and the group are emitted and the scan
  resumes behind the match. The pattern cannot match the empty string.
\<close>

function re_split :: "string \<Rightarrow> string \<Rightarrow> string list" where
  "re_split piece [] = [piece]"
| "re_split piece (c # s) =
     (case cmp_match (c # s) of
        Some (cmp, rest) \<Rightarrow> piece # cmp # re_split [] rest
      | None \<Rightarrow> re_split (piece @ [c]) s)"
  by pat_completeness auto
termination
proof (relation "measure (\<lambda>(piece, s). length s)")
  show "wf (measure (\<lambda>(piece, s). length s))" by simp
next
  fix piece :: string and c s x2 cmp rest
  assume m: "cmp_match (c # s) = Some x2" and x2: "(cmp, rest) = x2"
  define s1 where "s1 = dropWhile is_space (c # s)"
  have cmp: "takeWhile is_cmp s1 \<noteq> []" and rest: "rest = dropWhile is_space (dropWhile is_cmp s1)"
    using m x2 by (auto simp: cmp_match_def Let_def s1_def split: if_splits)
  have "length s1 = length (takeWhile is_cmp s1) + length (dropWhile is_cmp s1)"
    by (metis length_append takeWhile_dropWhile_id)
  with cmp have "length (dropWhile is_cmp s1) < length s1" by simp
  moreover have "length rest \<le> length (dropWhile is_cmp s1)"
    unfolding rest by (rule length_dropWhile_le)
  moreover have "length s1 \<le> length (c # s)"
    unfolding s1_def by (rule length_dropWhile_le)
  ultimately show "(([], rest), (piece, c # s)) \<in> measure (\<lambda>(piece, s). length s)"
    by simp
next
  fix piece :: string and c s
  show "((piece @ [c], s), (piece, c # s)) \<in> measure (\<lambda>(piece, s). length s)"
    by simp
qed

definition split_requirement :: "string \<Rightarrow> string list" where
  "split_requirement requirement = re_split [] requirement"

subsection \<open>\<^verbatim>\<open>normalize_requirements\<close>\<close>

text \<open>
  The dictionary \<open>parsed\<close> is an association list in insertion order, which is the
  order \<^verbatim>\<open>parsed.items()\<close> follows (Python 3.7 and later): a new key goes to the end,
  an existing key keeps its place.
\<close>

type_synonym parsed_dict = "(string \<times> (string \<times> string) list) list"

fun dict_setdefault :: "('k \<times> 'v) list \<Rightarrow> 'k \<Rightarrow> 'v \<Rightarrow> ('k \<times> 'v) list" where
  "dict_setdefault [] k d = [(k, d)]"
| "dict_setdefault (kv # kvs) k d =
     (if fst kv = k then kv # kvs else kv # dict_setdefault kvs k d)"

text \<open>\<^verbatim>\<open>parsed[k].append(x)\<close> for a key that is present.\<close>

definition dict_append :: "('k \<times> 'v list) list \<Rightarrow> 'k \<Rightarrow> 'v \<Rightarrow> ('k \<times> 'v list) list" where
  "dict_append kvs k x = map (\<lambda>kv. if fst kv = k then (fst kv, snd kv @ [x]) else kv) kvs"

fun str_join :: "string \<Rightarrow> string list \<Rightarrow> string" where
  "str_join sep [] = []"
| "str_join sep [x] = x"
| "str_join sep (x # y # ys) = x @ sep @ str_join sep (y # ys)"

fun normalize_parse :: "parsed_dict \<Rightarrow> string list \<Rightarrow> error + parsed_dict" where
  "normalize_parse parsed [] = Inr parsed"
| "normalize_parse parsed (requirement # requirements) =
     (let splitreq = split_requirement requirement
      in if length splitreq \<noteq> 1 \<and> length splitreq \<noteq> 3 then Inl RuntimeError_cannot_parse
         else if length splitreq = 1
         then normalize_parse (dict_setdefault parsed (splitreq ! 0) []) requirements
         else normalize_parse
                (dict_append (dict_setdefault parsed (splitreq ! 0) []) (splitreq ! 0)
                   (splitreq ! 1, splitreq ! 2))
                requirements)"

definition leftovers_of :: "string \<times> (string \<times> string) list \<Rightarrow> string list" where
  "leftovers_of kv =
     (let key = fst kv; value = uniq (snd kv)
      in if value = [] then [key]
         else map (\<lambda>v. str_join '' '' [key, fst v, snd v]) value)"

definition normalize_requirements :: "string list \<Rightarrow> error + string list" where
  "normalize_requirements requirements =
     (case normalize_parse [] requirements of
        Inl err \<Rightarrow> Inl err
      | Inr parsed \<Rightarrow> Inr (concat (map leftovers_of parsed)))"

subsection \<open>The package query adapter\<close>

text \<open>
  Modelled from the spec: the class \<^verbatim>\<open>pkgconfig\<close> (module \<^verbatim>\<open>pkgconfig.py\<close>, which is
  not among the sources). The spec's Package Query Adapter wraps one resolved package,
  exposes its version, macros, include directories, library names and library
  directories, fails with \<^verbatim>\<open>PackageNotFound\<close> when the name cannot be resolved, and
  compares its version with a version string segment by segment: the strings are split
  at dots, numeric segments compare numerically, other segments lexically. The spec
  does not say how a numeric segment compares with a non-numeric one; here the numeric
  one is the smaller. What is installed on the machine is the parameter \<open>pkg_db\<close>.
\<close>

record pkgconfig =
  name :: string
  version :: string
  package_macros :: "(string \<times> string) list"
  include_directories :: "string list"
  library_directories :: "string list"
  pc_libraries :: "string list"

type_synonym pkg_db = "string \<Rightarrow> pkgconfig option"

definition pkgconfig :: "pkg_db \<Rightarrow> string \<Rightarrow> error + pkgconfig" where
  "pkgconfig db nm =
     (case db nm of
        None \<Rightarrow> Inl PackageNotFound
      | Some p \<Rightarrow> Inr (p\<lparr>name := nm\<rparr>))"

datatype component = Num nat | Str string

definition is_digit :: "char \<Rightarrow> bool" where
  "is_digit c \<longleftrightarrow> CHR ''0'' \<le> c \<and> c \<le> CHR ''9''"

definition digit_val :: "char \<Rightarrow> nat" where
  "digit_val c = of_char c - of_char (CHR ''0'')"

definition parse_component :: "string \<Rightarrow> component" where
  "parse_component s =
     (if s \<noteq> [] \<and> list_all is_digit s
      then Num (foldl (\<lambda>n c. 10 * n + digit_val c) 0 s)
      else Str s)"

definition loose_version :: "string \<Rightarrow> component list" where
  "loose_version v = map parse_component (str_split (CHR ''.'') v)"

fun component_less :: "component \<Rightarrow> component \<Rightarrow> bool" where
  "component_less (Num a) (Num b) = (a < b)"
| "component_less (Str a) (Str b) = (a < b)"
| "component_less (Num a) (Str b) = True"
| "component_less (Str a) (Num b) = False"

fun components_less :: "component list \<Rightarrow> component list \<Rightarrow> bool" where
  "components_less [] [] = False"
| "components_less [] (y # ys) = True"
| "components_less (x # xs) [] = False"
| "components_less (x # xs) (y # ys) =
     (if component_less x y then True
      else if component_less y x then False
      else components_less xs ys)"

definition pkg_lt :: "pkgconfig \<Rightarrow> string \<Rightarrow> bool" where
  "pkg_lt p other = components_less (loose_version (version p)) (loose_version other)"

definition pkg_eq :: "pkgconfig \<Rightarrow> string \<Rightarrow> bool" where
  "pkg_eq p other \<longleftrightarrow> loose_version (version p) = loose_version other"

definition pkg_gt :: "pkgconfig \<Rightarrow> string \<Rightarrow> bool" where
  "pkg_gt p other = components_less (loose_version other) (loose_version (version p))"

definition pkg_le :: "pkgconfig \<Rightarrow> string \<Rightarrow> bool" where
  "pkg_le p other \<longleftrightarrow> pkg_lt p other \<or> pkg_eq p other"

definition pkg_ge :: "pkgconfig \<Rightarrow> string \<Rightarrow> bool" where
  "pkg_ge p other \<longleftrightarrow> pkg_gt p other \<or> pkg_eq p other"

subsection \<open>\<^verbatim>\<open>check_packages\<close>\<close>

definition py_assert :: "bool \<Rightarrow> error + unit" where
  "py_assert b = (if b then Inr () else Inl AssertionError)"

text \<open>Lines 60-71: the chain of comparisons on \<^verbatim>\<open>splitreq[1]\<close>.\<close>

definition check_version :: "pkgconfig \<Rightarrow> string \<Rightarrow> string \<Rightarrow> error + unit" where
  "check_version p cmp v =
     (if cmp = ''>'' then py_assert (pkg_gt p v)
      else if cmp = ''>='' then py_assert (pkg_ge p v)
      else if cmp = ''<'' then py_assert (pkg_lt p v)
      else if cmp = ''<='' then py_assert (pkg_le p v)
      else if cmp = ''=='' then py_assert (pkg_le p v)
      else Inl RuntimeError_cannot_parse)"

text \<open>Lines 50-71: one requirement, up to the test for a package requested twice.\<close>

definition check_requirement :: "pkg_db \<Rightarrow> string \<Rightarrow> error + pkgconfig" where
  "check_requirement db requirement =
     (let splitreq = split_requirement requirement
      in if length splitreq \<noteq> 1 \<and> length splitreq \<noteq> 3 then Inl RuntimeError_cannot_parse
         else
           (case pkgconfig db (splitreq ! 0) of
              Inl err \<Rightarrow> Inl err
            | Inr p \<Rightarrow>
                (case (if length splitreq = 3
                       then check_version p (splitreq ! 1) (splitreq ! 2)
                       else Inr ()) of
                   Inl err \<Rightarrow> Inl err
                 | Inr u \<Rightarrow> Inr p)))"

fun check_packages_loop ::
  "pkg_db \<Rightarrow> string set \<Rightarrow> pkgconfig list \<Rightarrow> string list \<Rightarrow> error + pkgconfig list" where
  "check_packages_loop db used retval [] = Inr retval"
| "check_packages_loop db used retval (requirement # requirements) =
     (case check_requirement db requirement of
        Inl err \<Rightarrow> Inl err
      | Inr p \<Rightarrow>
          if name p \<in> used then Inl RuntimeError_already_requested
          else check_packages_loop db (insert (name p) used) (retval @ [p]) requirements)"

definition check_packages :: "pkg_db \<Rightarrow> string list \<Rightarrow> error + pkgconfig list" where
  "check_packages db packages = check_packages_loop db {} [] (uniq packages)"

subsection \<open>\<^verbatim>\<open>generate_self_macros\<close>\<close>

text \<open>\<^verbatim>\<open>s.rsplit(sep, 1)\<close>: split at the last separator, if there is one.\<close>

definition str_rsplit1 :: "char \<Rightarrow> string \<Rightarrow> string list" where
  "str_rsplit1 sep s =
     (if sep \<in> set s
      then [rev (tl (dropWhile (\<lambda>c. c \<noteq> sep) (rev s))), rev (takeWhile (\<lambda>c. c \<noteq> sep) (rev s))]
      else [s])"

text \<open>\<^verbatim>\<open>'"%s"' % x\<close>: the text between two double quotes.\<close>

definition quoted :: "string \<Rightarrow> string" where
  "quoted x = [CHR 0x22] @ x @ [CHR 0x22]"

text \<open>
  The argument \<open>ver\<close> is \<^verbatim>\<open>version\<close>: \<open>None\<close> or a string. \<^verbatim>\<open>s[1]\<close> raises
  \<^verbatim>\<open>IndexError\<close> when the name has no dot; the prefix macro is built first, which
  raises nothing.
\<close>

definition generate_self_macros ::
  "os_env \<Rightarrow> string \<Rightarrow> string option \<Rightarrow> error + (string \<times> string) list" where
  "generate_self_macros e extname ver =
     (case ver of
        None \<Rightarrow> Inr []
      | Some v \<Rightarrow>
          (let s = str_rsplit1 (CHR ''.'') extname
           in if length s \<le> 1 then Inl IndexError
              else
                (let retval = [(''BOB_EXT_MODULE_PREFIX'', quoted (s ! 0)),
                               (''BOB_EXT_MODULE_NAME'', quoted (s ! 1))];
                     retval = (if python_major e \<ge> 3
                               then retval @ [(''BOB_EXT_ENTRY_NAME'', ''PyInit_'' @ s ! 1)]
                               else retval @ [(''BOB_EXT_ENTRY_NAME'', ''init'' @ s ! 1)]);
                     retval = (if v \<noteq> []
                               then retval @ [(''BOB_EXT_MODULE_VERSION'', quoted v)]
                               else retval)
                 in Inr retval)))"

subsection \<open>\<^verbatim>\<open>reorganize_isystem\<close>\<close>

text \<open>
  The loop over \<^verbatim>\<open>range(len(args))\<close>, on the arguments from index \<open>i\<close> on, with the
  flag \<open>skip\<close> and the two lists built so far. \<^verbatim>\<open>args[i+1]\<close> raises \<^verbatim>\<open>IndexError\<close>
  when \<^verbatim>\<open>-isystem\<close> is the last argument.
\<close>

fun isystem_scan ::
  "bool \<Rightarrow> string list \<Rightarrow> string list \<Rightarrow> string list \<Rightarrow> error + (string list \<times> string list)"
  where
  "isystem_scan skip remainder includes [] = Inr (remainder, includes)"
| "isystem_scan skip remainder includes (a # args) =
     (if skip then isystem_scan False remainder includes args
      else if a = ''-isystem''
      then (case args of
              [] \<Rightarrow> Inl IndexError
            | b # bs \<Rightarrow> isystem_scan True remainder (includes @ [b]) args)
      else isystem_scan False (remainder @ [a]) includes args)"

definition isystem_key :: "string \<Rightarrow> int \<times> string" where
  "isystem_key item = (- int (length item), item)"

definition reorganize_isystem :: "string list \<Rightarrow> error + string list" where
  "reorganize_isystem args =
     (case isystem_scan False [] [] args of
        Inl err \<Rightarrow> Inl err
      | Inr (remainder, includes) \<Rightarrow>
          (let includes = rev (uniq (rev includes));
               includes = sort_key isystem_key includes
           in Inr (remainder @ concat (map (\<lambda>k. [''-isystem'', k]) includes))))"

section \<open>Sibling packages and the flag assembly (\<^verbatim>\<open>__init__.py\<close>)\<close>

subsection \<open>More string and path primitives\<close>

text \<open>
  \<^verbatim>\<open>s.strip()\<close> removes whitespace at both ends. \<^verbatim>\<open>s.lower()\<close> maps the capital
  letters among the code points below 256 to their small letters: \<^verbatim>\<open>A\<close> to \<^verbatim>\<open>Z\<close>,
  and 0xC0 to 0xDE without the multiplication sign 0xD7; each small letter lies 32
  above its capital.
\<close>

definition str_strip :: "string \<Rightarrow> string" where
  "str_strip s = rev (dropWhile is_space (rev (dropWhile is_space s)))"

definition char_lower :: "char \<Rightarrow> char" where
  "char_lower c =
     (if (CHR ''A'' \<le> c \<and> c \<le> CHR ''Z'') \<or> (CHR 0xC0 \<le> c \<and> c \<le> CHR 0xDE \<and> c \<noteq> CHR 0xD7)
      then char_of (of_char c + (32 :: nat))
      else c)"

definition str_lower :: "string \<Rightarrow> string" where
  "str_lower s = map char_lower s"

definition startswith :: "string \<Rightarrow> string \<Rightarrow> bool" where
  "startswith s pre \<longleftrightarrow> take (length pre) s = pre"

text \<open>\<^verbatim>\<open>s.find(sub)\<close>: the lowest index where \<open>sub\<close> occurs in \<open>s\<close>, or \<open>-1\<close>.\<close>

fun str_find :: "string \<Rightarrow> string \<Rightarrow> int" where
  "str_find [] sub = (if sub = [] then 0 else - 1)"
| "str_find (c # s) sub =
     (if startswith (c # s) sub then 0
      else (let r = str_find s sub in if r < 0 then - 1 else r + 1))"

text \<open>
  \<^verbatim>\<open>s.replace(old, new)\<close> for a non-empty \<open>old\<close>: every occurrence, from left to
  right, without overlaps.
\<close>

function str_replace :: "string \<Rightarrow> string \<Rightarrow> string \<Rightarrow> string" where
  "str_replace [] old new = []"
| "str_replace (c # s) old new =
     (if old \<noteq> [] \<and> startswith (c # s) old
      then new @ str_replace (drop (length old) (c # s)) old new
      else c # str_replace s old new)"
  by pat_completeness auto
termination
  by (relation "measure (\<lambda>(s, old, new). length s)") auto

text \<open>\<^verbatim>\<open>os.path.dirname\<close> (posixpath).\<close>

definition os_path_dirname :: "string \<Rightarrow> string" where
  "os_path_dirname p =
     (let head = rev (dropWhile (\<lambda>c. c \<noteq> CHR ''/'') (rev p))
      in if head \<noteq> [] \<and> \<not> list_all (\<lambda>c. c = CHR ''/'') head
         then rev (dropWhile (\<lambda>c. c = CHR ''/'') (rev head))
         else head)"

subsection \<open>\<^verbatim>\<open>find_library\<close> (utils.py)\<close>

definition find_library ::
  "os_env \<Rightarrow> string \<Rightarrow> string option \<Rightarrow> string list option \<Rightarrow> string list option \<Rightarrow> bool
     \<Rightarrow> string list" where
  "find_library e nm ver subpaths prfxs only_static =
     (let libpaths = [''lib''];
          libpaths = (if platform_architecture e = ''32bit''
                      then libpaths @ [os_path_join ''lib'' ''i386-linux-gnu'', ''lib32'']
                      else libpaths @ [os_path_join ''lib'' ''x86_64-linux-gnu'', ''lib64'']);
          my_subpaths = (case subpaths of
                           Some sps \<Rightarrow>
                             if sps \<noteq> []
                             then concat (map (\<lambda>lp. map (\<lambda>k. os_path_join lp k) sps) libpaths)
                             else libpaths
                         | None \<Rightarrow> libpaths);
          extensions = (if only_static then [''.a'']
                        else if sys_platform e = ''darwin'' then [''.dylib'', ''.a'']
                        else if sys_platform e = ''win32'' then [''.dll'', ''.a'']
                        else [''.so'', ''.a'']);
          retval = (case ver of
                      Some v \<Rightarrow>
                        if v \<noteq> []
                        then concat (map (\<lambda>ext.
                               find_file e
                                 (if sys_platform e = ''darwin''
                                  then ''lib'' @ nm @ ''.'' @ v @ ext
                                  else ''lib'' @ nm @ ext @ ''.'' @ v)
                                 (Some my_subpaths) prfxs) extensions)
                        else []
                    | None \<Rightarrow> [])
      in retval
         @ concat (map (\<lambda>ext. find_file e (''lib'' @ nm @ ext) (Some my_subpaths) prfxs)
             extensions))"

subsection \<open>What is installed\<close>

text \<open>
  Modelled from the spec: the class \<^verbatim>\<open>boost\<close> (module \<^verbatim>\<open>boost.py\<close>, which is not
  among the sources). The spec's Boost Adapter is built from a bare version constraint,
  resolves the include directory, gives the library directories and names of the
  requested modules, and emits version macros. Its results are parameters, as are the
  package database and \<^verbatim>\<open>pkg_resources.resource_filename\<close>.
\<close>

record boost_pkg =
  include_directory :: string
  macros :: "(string \<times> string) list"
  libconfig :: "string list \<Rightarrow> error + (string list \<times> string list)"

record installed =
  pkg_config_db :: pkg_db
  boost :: "string \<Rightarrow> error + boost_pkg"
  resource_filename :: "string \<Rightarrow> string \<Rightarrow> string"

subsection \<open>\<^verbatim>\<open>get_bob_libraries\<close>\<close>

definition get_bob_library ::
  "os_env \<Rightarrow> installed \<Rightarrow> string list \<times> string list \<times> string list \<Rightarrow> string
     \<Rightarrow> string list \<times> string list \<times> string list" where
  "get_bob_library e inst acc package =
     (case acc of (includes, libs, lib_dirs) \<Rightarrow>
        (let includes = includes @ [resource_filename inst package ''include''];
             lib_name = str_replace package ''.'' ''_'';
             found = find_library e lib_name None None
                       (Some [resource_filename inst package ''.'']) False
         in if found \<noteq> []
            then (includes, libs @ [lib_name], lib_dirs @ [os_path_dirname (found ! 0)])
            else (includes, libs, lib_dirs)))"

definition get_bob_libraries ::
  "os_env \<Rightarrow> installed \<Rightarrow> string list option
     \<Rightarrow> error + (string list \<times> string list \<times> string list)" where
  "get_bob_libraries e inst bob_pkgs =
     (case bob_pkgs of
        None \<Rightarrow> Inr ([], [], [])
      | Some bp \<Rightarrow>
          (case normalize_requirements (map (\<lambda>k. str_lower (str_strip k)) bp) of
             Inl err \<Rightarrow> Inl err
           | Inr bp' \<Rightarrow> Inr (foldl (get_bob_library e inst) ([], [], []) bp')))"

subsection \<open>The caller's lists\<close>

text \<open>
  The constructor updates some of the lists it is given in place (\<^verbatim>\<open>append\<close>,
  \<^verbatim>\<open>+=\<close>), and what it does depends on which names refer to the same list object.
  These lists therefore live in a store: a reference is an index into the store, and a
  fresh list is allocated behind the existing ones. A reference passed by the caller
  points into the store the call starts with. The keyword arguments that the
  constructor only reads are passed by value.
\<close>

type_synonym ref = nat
type_synonym heap = "string list list"

definition heap_new :: "heap \<Rightarrow> string list \<Rightarrow> ref \<times> heap" where
  "heap_new h xs = (length h, h @ [xs])"

definition heap_extend :: "heap \<Rightarrow> ref \<Rightarrow> string list \<Rightarrow> heap" where
  "heap_extend h r xs = h[r := h ! r @ xs]"

datatype str_or_list = PyStr string | PyList "string list"

text \<open>Lines 232-239 and 268-274: a string counts as a one-element list.\<close>

definition as_list :: "str_or_list option \<Rightarrow> string list" where
  "as_list v = (case v of None \<Rightarrow> [] | Some (PyStr x) \<Rightarrow> [x] | Some (PyList xs) \<Rightarrow> xs)"

record ext_kwargs =
  kw_packages :: "str_or_list option"
  kw_bob_packages :: "string list option"
  kw_system_include_dirs :: "ref option"
  kw_boost_modules :: "str_or_list option"
  kw_version :: "string option"
  kw_include_dirs :: "ref option"
  kw_define_macros :: "(string \<times> string) list option"
  kw_extra_compile_args :: "string list option"
  kw_library_dirs :: "string list option"
  kw_libraries :: "string list option"
  kw_runtime_library_dirs :: "ref option"

text \<open>
  What the constructor hands to the base class (the final \<^verbatim>\<open>kwargs\<close>), and the
  attributes it sets on \<^verbatim>\<open>self\<close>.
\<close>

record extension =
  ext_name :: string
  include_dirs :: "string list"
  define_macros :: "(string \<times> string) list"
  extra_compile_args :: "string list"
  library_dirs :: "string list"
  libraries :: "string list"
  runtime_library_dirs :: "string list option"
  language :: string
  self_bob_packages :: "string list option"
  self_pkg_includes :: "string list"
  self_pkg_libraries :: "string list"
  self_pkg_library_directories :: "string list"
  self_pkg_macros :: "(string \<times> string) list"

subsection \<open>Boost requires a special treatment (lines 260-276)\<close>

text \<open>
  \<^verbatim>\<open>
  boost_req = ''
  for i, pkg in enumerate(packages):
    if pkg.startswith('boost'):
      boost_req = pkg
      del packages[i]
  \<close>
  The list iterator reads \<^verbatim>\<open>packages[i]\<close> as long as \<open>i\<close> is below the current
  length, and \<open>i\<close> grows by one in every round, also after a deletion.
\<close>

definition list_del :: "'a list \<Rightarrow> nat \<Rightarrow> 'a list" where
  "list_del xs i = take i xs @ drop (Suc i) xs"

function boost_loop :: "nat \<Rightarrow> string \<Rightarrow> string list \<Rightarrow> string \<times> string list" where
  "boost_loop i boost_req pkgs =
     (if i < length pkgs
      then (if startswith (pkgs ! i) ''boost''
            then boost_loop (Suc i) (pkgs ! i) (list_del pkgs i)
            else boost_loop (Suc i) boost_req pkgs)
      else (boost_req, pkgs))"
  by pat_completeness auto
termination
  by (relation "measure (\<lambda>(i, boost_req, pkgs). length pkgs - i)") (auto simp: list_del_def)

declare boost_loop.simps [simp del]

definition extract_boost :: "string list \<Rightarrow> string list \<Rightarrow> string \<times> string list" where
  "extract_boost pkgs boost_modules =
     (case boost_loop 0 [] pkgs of (boost_req, pkgs') \<Rightarrow>
        (if boost_modules \<noteq> [] \<and> boost_req = [] then (''boost >= 1.0'', pkgs')
         else (boost_req, pkgs')))"

subsection \<open>The state of the assembly\<close>

record assembly =
  heap :: heap
  par_define_macros :: "(string \<times> string) list"
  par_extra_compile_args :: "string list"
  par_library_dirs :: "string list"
  par_libraries :: "string list"
  pkg_includes :: "string list"
  pkg_libraries :: "string list"
  pkg_library_directories :: "string list"
  pkg_macros :: "(string \<times> string) list"

text \<open>Lines 302-321: updates for boost.\<close>

definition resolve_boost ::
  "installed \<Rightarrow> string \<Rightarrow> string list \<Rightarrow> ref \<Rightarrow> ref \<Rightarrow> assembly \<Rightarrow> error + assembly" where
  "resolve_boost inst boost_req boost_modules user_includes system_includes st =
     (if boost_req = [] then Inr st
      else
        (case boost inst (str_strip (str_replace boost_req ''boost'' [])) of
           Inl err \<Rightarrow> Inl err
         | Inr boost_pkg \<Rightarrow>
             (let st = st\<lparr>par_define_macros := par_define_macros st @ macros boost_pkg\<rparr>;
                  st = (if include_directory boost_pkg \<notin> set (heap st ! user_includes)
                        then st\<lparr>heap := heap_extend (heap st) system_includes
                                          [include_directory boost_pkg],
                                pkg_includes := pkg_includes st @ [include_directory boost_pkg]\<rparr>
                        else st)
              in if boost_modules \<noteq> []
                 then (case libconfig boost_pkg boost_modules of
                         Inl err \<Rightarrow> Inl err
                       | Inr (boost_libdirs, boost_libraries) \<Rightarrow>
                           Inr (st\<lparr>par_library_dirs := par_library_dirs st @ boost_libdirs,
                                   pkg_library_directories :=
                                     pkg_library_directories st @ boost_libdirs,
                                   par_libraries := par_libraries st @ boost_libraries,
                                   pkg_libraries := pkg_libraries st @ boost_libraries\<rparr>))
                 else Inr st)))"

subsection \<open>One resolved package (lines 326-357)\<close>

text \<open>Lines 333-336: one include directory of the package.\<close>

definition add_include :: "ref \<Rightarrow> ref \<Rightarrow> assembly \<Rightarrow> string \<Rightarrow> assembly" where
  "add_include user_includes system_includes st k =
     (if k \<in> set (heap st ! user_includes) \<or> k \<in> set (pkg_includes st) then st
      else st\<lparr>heap := heap_extend (heap st) system_includes [k],
              pkg_includes := pkg_includes st @ [k]\<rparr>)"

text \<open>Lines 341-354: the names of the libraries to link against.\<close>

definition decorate_libraries :: "os_env \<Rightarrow> pkgconfig \<Rightarrow> error + string list" where
  "decorate_libraries e pkg =
     (if str_find (name pkg) ''bob-'' = 0
      then (if platform_system e = ''Darwin''
            then Inr (map (\<lambda>k. k @ ''.'' @ version pkg) (pc_libraries pkg))
            else if platform_system e = ''Linux''
            then Inr (map (\<lambda>k. '':lib'' @ k @ ''.so.'' @ version pkg) (pc_libraries pkg))
            else Inl RuntimeError_unsupported_platform)
      else Inr (pc_libraries pkg))"

definition add_package :: "os_env \<Rightarrow> ref \<Rightarrow> ref \<Rightarrow> assembly \<Rightarrow> pkgconfig \<Rightarrow> error + assembly" where
  "add_package e user_includes system_includes st pkg =
     (let st = st\<lparr>par_define_macros := par_define_macros st @ package_macros pkg,
                  pkg_macros := pkg_macros st @ package_macros pkg\<rparr>;
          st = foldl (add_include user_includes system_includes) st (include_directories pkg);
          st = st\<lparr>par_library_dirs := par_library_dirs st @ library_directories pkg,
                  pkg_library_directories :=
                    pkg_library_directories st @ library_directories pkg\<rparr>
      in (case decorate_libraries e pkg of
            Inl err \<Rightarrow> Inl err
          | Inr libs \<Rightarrow>
              Inr (st\<lparr>par_libraries := par_libraries st @ libs,
                      pkg_libraries := pkg_libraries st @ libs\<rparr>)))"

fun add_packages :: "os_env \<Rightarrow> ref \<Rightarrow> ref \<Rightarrow> assembly \<Rightarrow> pkgconfig list \<Rightarrow> error + assembly" where
  "add_packages e user_includes system_includes st [] = Inr st"
| "add_packages e user_includes system_includes st (pkg # pkgs) =
     (case add_package e user_includes system_includes st pkg of
        Inl err \<Rightarrow> Inl err
      | Inr st' \<Rightarrow> add_packages e user_includes system_includes st' pkgs)"

subsection \<open>\<^verbatim>\<open>Extension.__init__\<close>\<close>

definition opt_list :: "'a list option \<Rightarrow> 'a list" where
  "opt_list v = (case v of None \<Rightarrow> [] | Some xs \<Rightarrow> xs)"

text \<open>\<^verbatim>\<open>kwargs.get(key, [])\<close> and \<^verbatim>\<open>kwargs.setdefault(key, [])\<close> on a list in the store.\<close>

definition ref_or_new :: "ref option \<Rightarrow> heap \<Rightarrow> ref \<times> heap" where
  "ref_or_new v h = (case v of Some r \<Rightarrow> (r, h) | None \<Rightarrow> heap_new h [])"

text \<open>
  Lines 359-399, after the packages are resolved. The loop over \<^verbatim>\<open>parameters.keys()\<close>
  is written out for its four keys; \<^verbatim>\<open>key in ('extra_compile_args')\<close> tests whether
  the key is a substring of that name, which holds for \<^verbatim>\<open>extra_compile_args\<close> alone.
\<close>

definition finish_extension ::
  "os_env \<Rightarrow> installed \<Rightarrow> string \<Rightarrow> ext_kwargs \<Rightarrow> string list \<times> string list \<times> string list
     \<Rightarrow> ref \<Rightarrow> ref \<Rightarrow> assembly \<Rightarrow> error + (extension \<times> heap)" where
  "finish_extension e inst ext_nm kw bob user_includes system_includes st =
     (case bob of (bob_includes, bob_libraries, bob_library_dirs) \<Rightarrow>
        (let h = heap st;
             args = par_extra_compile_args st
                      @ concat (map (\<lambda>k. [''-isystem'', k]) (h ! system_includes));
             kw_macros = uniq (par_define_macros st @ opt_list (kw_define_macros kw));
             kw_args = args @ opt_list (kw_extra_compile_args kw);
             kw_libdirs = uniq (par_library_dirs st @ opt_list (kw_library_dirs kw));
             kw_libs = uniq (par_libraries st @ opt_list (kw_libraries kw));
             self_include_dir = resource_filename inst ''bob.extension'' ''include'';
             (inc, h) = ref_or_new (kw_include_dirs kw) h;
             h = heap_extend h inc [self_include_dir];
             kw_incs = uniq (h ! user_includes @ bob_includes @ h ! inc)
         in (case reorganize_isystem kw_args of
               Inl err \<Rightarrow> Inl err
             | Inr kw_args \<Rightarrow>
                 (let (kw_rt, h) =
                        (if platform_system e = ''Linux''
                         then (let (rt, h) = ref_or_new (kw_runtime_library_dirs kw) h;
                                   h = heap_extend h rt kw_libdirs
                               in (Some (uniq (h ! rt)), h))
                         else (map_option (\<lambda>rt. h ! rt) (kw_runtime_library_dirs kw), h));
                      kw_libdirs = kw_libdirs @ bob_library_dirs
                  in Inr (\<lparr>ext_name = ext_nm,
                            include_dirs = kw_incs,
                            define_macros = kw_macros,
                            extra_compile_args = kw_args,
                            library_dirs = kw_libdirs,
                            libraries = kw_libs,
                            runtime_library_dirs = kw_rt,
                            language = ''c++'',
                            self_bob_packages = kw_bob_packages kw,
                            self_pkg_includes = pkg_includes st,
                            self_pkg_libraries = pkg_libraries st,
                            self_pkg_library_directories = pkg_library_directories st,
                            self_pkg_macros = pkg_macros st\<rparr>, h)))))"

text \<open>
  Lines 285-300: the dictionary \<^verbatim>\<open>parameters\<close> and the four \<^verbatim>\<open>self.pkg_\<close> lists as
  they are first set.
\<close>

definition init_assembly ::
  "os_env \<Rightarrow> heap \<Rightarrow> (string \<times> string) list \<Rightarrow> string list \<Rightarrow> assembly" where
  "init_assembly e h self_macros bob_libraries =
     \<lparr>heap = h,
      par_define_macros = self_macros,
      par_extra_compile_args =
        [''-std=c++0x'']
        @ (if platform_system e = ''Darwin'' then [''-Wno-#warnings''] else []),
      par_library_dirs = [],
      par_libraries = bob_libraries,
      pkg_includes = [],
      pkg_libraries = [],
      pkg_library_directories = [],
      pkg_macros = []\<rparr>"

text \<open>
  The constructor, on the store \<open>h\<close> of the caller's lists. It returns the extension
  and the store after the call, or the exception raised.
\<close>

definition Extension_init ::
  "os_env \<Rightarrow> installed \<Rightarrow> heap \<Rightarrow> string \<Rightarrow> ext_kwargs \<Rightarrow> error + (extension \<times> heap)" where
  "Extension_init e inst h ext_nm kw =
     (case normalize_requirements (map (\<lambda>k. str_lower (str_strip k)) (as_list (kw_packages kw))) of
        Inl err \<Rightarrow> Inl err
      | Inr pkgs \<Rightarrow>
     (case get_bob_libraries e inst (kw_bob_packages kw) of
        Inl err \<Rightarrow> Inl err
      | Inr (bob_includes, bob_libraries, bob_library_dirs) \<Rightarrow>
     (let (system_includes, h) = ref_or_new (kw_system_include_dirs kw) h;
          boost_modules = as_list (kw_boost_modules kw);
          (boost_req, pkgs) = extract_boost pkgs boost_modules
      in
     (case generate_self_macros e ext_nm (kw_version kw) of
        Inl err \<Rightarrow> Inl err
      | Inr self_macros \<Rightarrow>
     (let (user_includes, h) = ref_or_new (kw_include_dirs kw) h;
          st = init_assembly e h self_macros bob_libraries
      in
     (case resolve_boost inst boost_req boost_modules user_includes system_includes st of
        Inl err \<Rightarrow> Inl err
      | Inr st \<Rightarrow>
     (case check_packages (pkg_config_db inst) pkgs of
        Inl err \<Rightarrow> Inl err
      | Inr resolved \<Rightarrow>
     (case add_packages e user_includes system_includes st resolved of
        Inl err \<Rightarrow> Inl err
      | Inr st \<Rightarrow>
          finish_extension e inst ext_nm kw (bob_includes, bob_libraries, bob_library_dirs)
            user_includes system_includes st))))))))"

section \<open>The two-phase build (\<^verbatim>\<open>build_ext.run\<close>)\<close>

text \<open>
  A \<^verbatim>\<open>Library\<close> is an \<^verbatim>\<open>Extension\<close> with further attributes; of these the
  orchestrator reads \<^verbatim>\<open>c_name\<close> and \<^verbatim>\<open>c_target_directory\<close>. The test
  \<^verbatim>\<open>isinstance(ext, Library)\<close> is the constructor of \<open>target\<close>.
\<close>

record library = extension +
  c_name :: string
  c_target_directory :: string

datatype target = ExtensionT extension | LibraryT library

fun is_Library :: "target \<Rightarrow> bool" where
  "is_Library (LibraryT l) = True"
| "is_Library (ExtensionT x) = False"

record build_ext =
  extensions :: "target list"
  build_lib :: string

text \<open>
  The first loop. Creating the build directory and \<^verbatim>\<open>ext.compile(build_dir)\<close> act on
  the file system and on external processes; whether they succeed for a library and a
  build directory is the parameter \<open>compile\<close> (\<^verbatim>\<open>compile\<close> raises \<^verbatim>\<open>OSError\<close>
  otherwise).
\<close>

fun build_libraries ::
  "(library \<Rightarrow> string \<Rightarrow> bool) \<Rightarrow> string \<Rightarrow> string list \<times> string list \<times> string list
     \<Rightarrow> target list \<Rightarrow> error + (string list \<times> string list \<times> string list)" where
  "build_libraries compile bl acc [] = Inr acc"
| "build_libraries compile bl acc (ExtensionT x # exts) = build_libraries compile bl acc exts"
| "build_libraries compile bl acc (LibraryT l # exts) =
     (case acc of (libs, lib_dirs, inc_dirs) \<Rightarrow>
        (let build_dir = os_path_join bl (ext_name l)
         in if compile l build_dir
            then build_libraries compile bl
                   (libs @ [c_name l],
                    lib_dirs @ [c_target_directory l],
                    inc_dirs @ [os_path_join (c_target_directory l) ''include''])
                   exts
            else Inl OSError))"

text \<open>Lines 575-578, for one of the remaining extensions.\<close>

fun set_defaults :: "string list \<times> string list \<times> string list \<Rightarrow> target \<Rightarrow> target" where
  "set_defaults (libs, lib_dirs, inc_dirs) (ExtensionT x) =
     ExtensionT (x\<lparr>libraries := libs @ (if libraries x \<noteq> [] then libraries x else []),
                   library_dirs := lib_dirs @ (if library_dirs x \<noteq> [] then library_dirs x else []),
                   include_dirs := inc_dirs @ (if include_dirs x \<noteq> [] then include_dirs x else [])\<rparr>)"
| "set_defaults acc (LibraryT l) = LibraryT l"

text \<open>
  \<^verbatim>\<open>run\<close>, up to the call of the base class: the object as the standard build step
  receives it.
\<close>

definition build_ext_run :: "(library \<Rightarrow> string \<Rightarrow> bool) \<Rightarrow> build_ext \<Rightarrow> error + build_ext" where
  "build_ext_run compile self =
     (case build_libraries compile (build_lib self) ([], [], []) (extensions self) of
        Inl err \<Rightarrow> Inl err
      | Inr acc \<Rightarrow>
          Inr (self\<lparr>extensions :=
                 map (set_defaults acc) (filter (\<lambda>ext. \<not> is_Library ext) (extensions self))\<rparr>))"

section \<open>Notions used in the statements\<close>

subsection \<open>Reading an argument list in pairs\<close>

text \<open>
  The arguments of a compiler command line, read from the left: \<^verbatim>\<open>-isystem\<close> and the
  argument behind it form a pair, every other argument stands for itself. The list is
  dangling when this reading ends on an \<^verbatim>\<open>-isystem\<close> with nothing behind it.
\<close>

fun isystem_others :: "string list \<Rightarrow> string list" where
  "isystem_others [] = []"
| "isystem_others [a] = [a]"
| "isystem_others (a # b # rest) =
     (if a = ''-isystem'' then isystem_others rest else a # isystem_others (b # rest))"

fun isystem_paths :: "string list \<Rightarrow> string list" where
  "isystem_paths [] = []"
| "isystem_paths [a] = []"
| "isystem_paths (a # b # rest) =
     (if a = ''-isystem'' then b # isystem_paths rest else isystem_paths (b # rest))"

fun isystem_dangling :: "string list \<Rightarrow> bool" where
  "isystem_dangling [] = False"
| "isystem_dangling [a] = (a = ''-isystem'')"
| "isystem_dangling (a # b # rest) =
     (if a = ''-isystem'' then isystem_dangling rest else isystem_dangling (b # rest))"

subsection \<open>The parts of a requirement\<close>

text \<open>
  A name as the split leaves it in front of a comparator: no comparator character, no
  whitespace at its end. A constraint as the split leaves it: a non-empty run of
  comparator characters, and a version without comparator characters and without
  whitespace at its front.
\<close>

definition canonical_name :: "string \<Rightarrow> bool" where
  "canonical_name k \<longleftrightarrow> (\<forall>x \<in> set k. \<not> is_cmp x) \<and> (k = [] \<or> \<not> is_space (last k))"

definition canonical_constraint :: "string \<times> string \<Rightarrow> bool" where
  "canonical_constraint v \<longleftrightarrow>
     fst v \<noteq> [] \<and> (\<forall>x \<in> set (fst v). is_cmp x) \<and> (\<forall>x \<in> set (snd v). \<not> is_cmp x)
     \<and> (snd v = [] \<or> \<not> is_space (hd (snd v)))"

definition good_entry :: "string \<times> (string \<times> string) list \<Rightarrow> bool" where
  "good_entry kv \<longleftrightarrow>
     (\<forall>x \<in> set (fst kv). \<not> is_cmp x)
     \<and> (snd kv \<noteq> [] \<longrightarrow> canonical_name (fst kv))
     \<and> (\<forall>v \<in> set (snd kv). canonical_constraint v)"

definition good_dict :: "parsed_dict \<Rightarrow> bool" where
  "good_dict d \<longleftrightarrow> distinct (map fst d) \<and> (\<forall>kv \<in> set d. good_entry kv)"

subsection \<open>The two kinds of targets, in declaration order\<close>

fun library_targets :: "target list \<Rightarrow> library list" where
  "library_targets [] = []"
| "library_targets (ExtensionT x # ts) = library_targets ts"
| "library_targets (LibraryT l # ts) = l # library_targets ts"

fun extension_targets :: "target list \<Rightarrow> extension list" where
  "extension_targets [] = []"
| "extension_targets (ExtensionT x # ts) = x # extension_targets ts"
| "extension_targets (LibraryT l # ts) = extension_targets ts"

subsection \<open>Stores that only grow\<close>

text \<open>
  The store \<open>h'\<close> grows out of \<open>h\<close>: every list of \<open>h\<close> is still there, and what it
  held is the front of what it holds now.
\<close>

definition heap_grows :: "heap \<Rightarrow> heap \<Rightarrow> bool" where
  "heap_grows h h' \<longleftrightarrow> length h \<le> length h' \<and> (\<forall>a < length h. prefix (h ! a) (h' ! a))"

subsection \<open>A machine for the examples\<close>

definition example_env :: os_env where
  "example_env =
     \<lparr>BOB_PREFIX_PATH = None, pathsep = CHR '':'', glob = (\<lambda>p. [p]),
      path_exists = (\<lambda>p. False), platform_system = ''Linux'', sys_platform = ''linux'',
      platform_architecture = ''64bit'', python_major = 3\<rparr>"

definition example_package :: "string \<Rightarrow> string list \<Rightarrow> pkgconfig" where
  "example_package v libs =
     \<lparr>name = [], version = v, package_macros = [(''HAVE_X'', ''1'')],
      include_directories = [''/usr/include/x'', ''/usr/include''],
      library_directories = [''/usr/lib''], pc_libraries = libs\<rparr>"

definition example_db :: pkg_db where
  "example_db nm =
     (if nm = ''bob-core'' then Some (example_package ''1.0'' [''bob_core''])
      else if nm = ''blitz'' then Some (example_package ''0.10'' [''blitz''])
      else None)"

definition example_installed :: installed where
  "example_installed =
     \<lparr>pkg_config_db = example_db,
      boost = (\<lambda>req. Inr \<lparr>include_directory = ''/usr/include/boost'',
                          macros = [(''BOOST_VERSION'', ''1.50'')],
                          libconfig = (\<lambda>ms. Inr ([''/usr/lib''], map (\<lambda>m. ''boost_'' @ m) ms))\<rparr>),
      resource_filename = (\<lambda>p f. ''/site/'' @ p @ ''/'' @ f)\<rparr>"

definition no_kwargs :: ext_kwargs where
  "no_kwargs =
     \<lparr>kw_packages = None, kw_bob_packages = None, kw_system_include_dirs = None,
      kw_boost_modules = None, kw_version = None, kw_include_dirs = None,
      kw_define_macros = None, kw_extra_compile_args = None, kw_library_dirs = None,
      kw_libraries = None, kw_runtime_library_dirs = None\<rparr>"

definition example_extension :: extension where
  "example_extension =
     \<lparr>ext_name = ''bob.core._lib'', include_dirs = [''/site/bob.extension/include''],
      define_macros = [], extra_compile_args = [''-std=c++0x''], library_dirs = [],
      libraries = [], runtime_library_dirs = Some [], language = ''c++'',
      self_bob_packages = None, self_pkg_includes = [], self_pkg_libraries = [],
      self_pkg_library_directories = [], self_pkg_macros = []\<rparr>"

definition example_library :: library where
  "example_library =
     \<lparr>ext_name = ''bob.core.bob_core'', include_dirs = [''/site/bob.extension/include''],
      define_macros = [], extra_compile_args = [''-std=c++0x''], library_dirs = [],
      libraries = [], runtime_library_dirs = Some [], language = ''c++'',
      self_bob_packages = None, self_pkg_includes = [], self_pkg_libraries = [],
      self_pkg_library_directories = [], self_pkg_macros = [],
      c_name = ''bob_core'', c_target_directory = ''/src/bob/core''\<rparr>"

section \<open>Properties\<close>

subsection \<open>Order-preserving deduplication\<close>

lemma uniq_from_set: "set (uniq_from seen xs) = set xs - seen"
  by (induction xs arbitrary: seen) auto

lemma uniq_from_distinct: "distinct (uniq_from seen xs)"
  by (induction xs arbitrary: seen) (auto simp: uniq_from_set)

lemma uniq_from_filter: "uniq_from (A \<union> B) xs = uniq_from B (filter (\<lambda>x. x \<notin> A) xs)"
proof (induction xs arbitrary: B)
  case Nil
  show ?case by simp
next
  case (Cons x xs)
  have "uniq_from (insert x (A \<union> B)) xs = uniq_from (insert x B) (filter (\<lambda>x. x \<notin> A) xs)"
    using Cons [of "insert x B"] by simp
  with Cons [of B] show ?case by simp
qed

lemma uniq_set: "set (uniq xs) = set xs"
  by (simp add: uniq_def uniq_from_set)

lemma uniq_distinct: "distinct (uniq xs)"
  by (simp add: uniq_def uniq_from_distinct)

lemma uniq_Nil: "uniq [] = []"
  by (simp add: uniq_def)

lemma uniq_Cons: "uniq (x # xs) = x # uniq (filter (\<lambda>y. y \<noteq> x) xs)"
  using uniq_from_filter [of "{x}" "{}" xs] by (simp add: uniq_def)

lemma uniq_distinct_id: "distinct xs \<Longrightarrow> uniq xs = xs"
proof (induction xs)
  case Nil
  show ?case by (simp add: uniq_Nil)
next
  case (Cons x xs)
  then have "filter (\<lambda>y. y \<noteq> x) xs = xs"
    by (auto intro: filter_True)
  with Cons show ?case by (simp add: uniq_Cons)
qed

lemma uniq_idem: "uniq (uniq xs) = uniq xs"
  by (simp add: uniq_distinct_id uniq_distinct)

lemma uniq_filter: "uniq (filter P xs) = filter P (uniq xs)"
proof (induction xs rule: length_induct)
  case (1 xs)
  show ?case
  proof (cases xs)
    case Nil
    then show ?thesis by (simp add: uniq_Nil)
  next
    case (Cons x ys)
    have len: "length (filter (\<lambda>y. y \<noteq> x) ys) < length xs"
      using Cons by (simp add: le_imp_less_Suc)
    have comm: "filter (\<lambda>y. y \<noteq> x) (filter P ys) = filter P (filter (\<lambda>y. y \<noteq> x) ys)"
      by (induction ys) auto
    have ih: "uniq (filter P (filter (\<lambda>y. y \<noteq> x) ys)) = filter P (uniq (filter (\<lambda>y. y \<noteq> x) ys))"
      using 1 len by blast
    show ?thesis
    proof (cases "P x")
      case True
      then show ?thesis using Cons ih comm by (simp add: uniq_Cons)
    next
      case False
      have drop_x: "filter P (filter (\<lambda>y. y \<noteq> x) ys) = filter P ys"
        by (induction ys) (use False in auto)
      have "uniq (filter P ys) = filter P (uniq (filter (\<lambda>y. y \<noteq> x) ys))"
        using ih by (simp only: drop_x)
      then show ?thesis using Cons False by (simp add: uniq_Cons)
    qed
  qed
qed

lemma takeWhile_filter_neq:
  "a \<noteq> x \<Longrightarrow> takeWhile (\<lambda>y. y \<noteq> x) (filter (\<lambda>y. y \<noteq> a) ys)
     = filter (\<lambda>y. y \<noteq> a) (takeWhile (\<lambda>y. y \<noteq> x) ys)"
proof (induct ys)
  case Nil
  show ?case by simp
next
  case (Cons y ys)
  show ?case
  proof (cases "y = a")
    case True
    then show ?thesis using Cons by simp
  next
    case False
    then show ?thesis using Cons by (cases "y = x") simp_all
  qed
qed

lemma uniq_takeWhile:
  "takeWhile (\<lambda>y. y \<noteq> x) (uniq xs) = uniq (takeWhile (\<lambda>y. y \<noteq> x) xs)"
proof (induction xs rule: length_induct)
  case (1 xs)
  show ?case
  proof (cases xs)
    case Nil
    then show ?thesis by (simp add: uniq_Nil)
  next
    case (Cons a ys)
    show ?thesis
    proof (cases "a = x")
      case True
      then show ?thesis using Cons by (simp add: uniq_Cons uniq_Nil)
    next
      case False
      have len: "length (filter (\<lambda>y. y \<noteq> a) ys) < length xs"
        using Cons by (simp add: le_imp_less_Suc)
      have ih: "takeWhile (\<lambda>y. y \<noteq> x) (uniq (filter (\<lambda>y. y \<noteq> a) ys))
          = uniq (takeWhile (\<lambda>y. y \<noteq> x) (filter (\<lambda>y. y \<noteq> a) ys))"
        using 1 len by blast
      have "takeWhile (\<lambda>y. y \<noteq> x) (uniq (a # ys))
          = a # takeWhile (\<lambda>y. y \<noteq> x) (uniq (filter (\<lambda>y. y \<noteq> a) ys))"
        using False by (simp add: uniq_Cons)
      also have "\<dots> = a # uniq (filter (\<lambda>y. y \<noteq> a) (takeWhile (\<lambda>y. y \<noteq> x) ys))"
        by (simp only: ih takeWhile_filter_neq [OF False])
      also have "\<dots> = uniq (takeWhile (\<lambda>y. y \<noteq> x) (a # ys))"
        using False by (simp add: uniq_Cons)
      finally show ?thesis using Cons by simp
    qed
  qed
qed

subsection \<open>The regular expression split\<close>

text \<open>
  Of the whitespace characters these proofs use two facts only: the blank is one of
  them, and no comparator character is.
\<close>

lemma cmp_not_space: "is_cmp c \<Longrightarrow> \<not> is_space c"
  by (auto simp: is_cmp_def is_space_def)

lemma space_not_cmp: "\<not> is_cmp (CHR '' '')" and space_is_space: "is_space (CHR '' '')"
  by (simp_all add: is_cmp_def is_space_def)

lemma cmp_match_None_iff:
  "cmp_match s = None \<longleftrightarrow>
     dropWhile is_space s = [] \<or> \<not> is_cmp (hd (dropWhile is_space s))"
  by (simp add: cmp_match_def Let_def takeWhile_eq_Nil_iff)

lemma cmp_match_no_cmp:
  assumes "\<forall>c \<in> set s. \<not> is_cmp c"
  shows "cmp_match s = None"
proof (cases "dropWhile is_space s = []")
  case True
  then show ?thesis by (simp add: cmp_match_None_iff)
next
  case False
  then have "hd (dropWhile is_space s) \<in> set (dropWhile is_space s)" by simp
  then have "hd (dropWhile is_space s) \<in> set s" by (metis set_dropWhileD)
  with assms show ?thesis by (simp add: cmp_match_None_iff)
qed

lemma cmp_match_first_cmp: "is_cmp c \<Longrightarrow> cmp_match (c # s) \<noteq> None"
  by (simp add: cmp_match_None_iff cmp_not_space)

lemma cmp_match_skip_space: "is_space c \<Longrightarrow> cmp_match (c # s) = cmp_match s"
  by (simp add: cmp_match_def)

lemma cmp_match_Some:
  assumes "cmp_match s = Some (cmp, rest)"
  shows "cmp \<noteq> []" and "\<forall>c \<in> set cmp. is_cmp c" and "rest = [] \<or> \<not> is_space (hd rest)"
proof -
  define s1 where "s1 = dropWhile is_space s"
  from assms have cmp: "cmp = takeWhile is_cmp s1" and ne: "cmp \<noteq> []"
    and rest: "rest = dropWhile is_space (dropWhile is_cmp s1)"
    by (auto simp: cmp_match_def Let_def s1_def split: if_splits)
  show "cmp \<noteq> []" by (rule ne)
  show "\<forall>c \<in> set cmp. is_cmp c" unfolding cmp by (auto dest: set_takeWhileD)
  show "rest = [] \<or> \<not> is_space (hd rest)" unfolding rest by (metis hd_dropWhile)
qed

lemma re_split_no_cmp:
  "\<forall>c \<in> set s. \<not> is_cmp c \<Longrightarrow> re_split p s = [p @ s]"
proof (induction s arbitrary: p)
  case Nil
  show ?case by simp
next
  case (Cons c s)
  have "cmp_match (c # s) = None" by (rule cmp_match_no_cmp) (use Cons.prems in auto)
  moreover have "re_split (p @ [c]) s = [(p @ [c]) @ s]"
    by (rule Cons.IH) (use Cons.prems in auto)
  ultimately show ?case by simp
qed

lemma re_split_single:
  "re_split p s = [a] \<Longrightarrow> a = p @ s \<and> (\<forall>c \<in> set s. \<not> is_cmp c)"
proof (induction p s rule: re_split.induct)
  case (1 piece)
  then show ?case by simp
next
  case (2 piece c s)
  show ?case
  proof (cases "cmp_match (c # s)")
    case None
    with 2 have "a = (piece @ [c]) @ s \<and> (\<forall>c \<in> set s. \<not> is_cmp c)" by simp
    moreover have "\<not> is_cmp c" using None cmp_match_first_cmp by blast
    ultimately show ?thesis by simp
  next
    case (Some m)
    with 2(3) show ?thesis by (cases m) simp
  qed
qed

lemma re_split_triple:
  "re_split p s = [a, b, c] \<Longrightarrow>
     \<exists>k s'. s = k @ s' \<and> a = p @ k \<and> cmp_match s' = Some (b, c)
        \<and> (\<forall>x \<in> set k. \<not> is_cmp x) \<and> (k = [] \<or> \<not> is_space (last k))
        \<and> (\<forall>x \<in> set c. \<not> is_cmp x)"
proof (induction p s rule: re_split.induct)
  case (1 piece)
  then show ?case by simp
next
  case (2 piece c0 s)
  show ?case
  proof (cases "cmp_match (c0 # s)")
    case None
    with 2(3) have "re_split (piece @ [c0]) s = [a, b, c]" by simp
    from 2(1) [OF None this] obtain k s' where k: "s = k @ s'" "a = (piece @ [c0]) @ k"
      "cmp_match s' = Some (b, c)" "\<forall>x \<in> set k. \<not> is_cmp x" "k = [] \<or> \<not> is_space (last k)"
      "\<forall>x \<in> set c. \<not> is_cmp x"
      by blast
    have c0: "\<not> is_cmp c0" using None cmp_match_first_cmp by blast
    have last: "\<not> is_space (last (c0 # k))"
    proof (cases "k = []")
      case True
      show ?thesis
      proof
        assume "is_space (last (c0 # k))"
        then have "is_space c0" using True by simp
        then have "cmp_match (c0 # s) = cmp_match s" by (rule cmp_match_skip_space)
        with None k(1,3) True show False by simp
      qed
    next
      case False
      with k(5) show ?thesis by simp
    qed
    have "c0 # s = (c0 # k) @ s'" using k(1) by simp
    moreover have "a = piece @ (c0 # k)" using k(2) by simp
    moreover have "\<forall>x \<in> set (c0 # k). \<not> is_cmp x" using k(4) c0 by simp
    ultimately show ?thesis using k(3,6) last by blast
  next
    case (Some m)
    obtain cmp rest where m: "m = (cmp, rest)" by (cases m) auto
    from 2(3) Some m have a: "a = piece" and b: "b = cmp" and r: "re_split [] rest = [c]"
      by simp_all
    from re_split_single [OF r] have "c = rest" and "\<forall>x \<in> set c. \<not> is_cmp x" by simp_all
    with Some m a b have "c0 # s = [] @ (c0 # s) \<and> a = piece @ [] \<and> cmp_match (c0 # s) = Some (b, c)
        \<and> (\<forall>x \<in> set []. \<not> is_cmp x) \<and> ([] = [] \<or> \<not> is_space (last [])) \<and> (\<forall>x \<in> set c. \<not> is_cmp x)"
      by simp
    then show ?thesis by blast
  qed
qed

lemma split_requirement_triple:
  assumes "split_requirement r = [a, b, c]"
  shows "canonical_name a" and "canonical_constraint (b, c)"
proof -
  from assms re_split_triple [of "[]" r a b c] obtain k s' where
    k: "r = k @ s'" "a = k" "cmp_match s' = Some (b, c)" "\<forall>x \<in> set k. \<not> is_cmp x"
      "k = [] \<or> \<not> is_space (last k)" "\<forall>x \<in> set c. \<not> is_cmp x"
    by (auto simp: split_requirement_def)
  show "canonical_name a" using k by (simp add: canonical_name_def)
  show "canonical_constraint (b, c)"
    using cmp_match_Some [OF k(3)] k(6) by (simp add: canonical_constraint_def)
qed

lemma split_requirement_single:
  "split_requirement r = [a] \<Longrightarrow> a = r \<and> (\<forall>x \<in> set r. \<not> is_cmp x)"
  using re_split_single [of "[]" r a] by (simp add: split_requirement_def)

lemma split_requirement_bare:
  "\<forall>x \<in> set r. \<not> is_cmp x \<Longrightarrow> split_requirement r = [r]"
  by (simp add: split_requirement_def re_split_no_cmp)

lemma cmp_match_rendered:
  assumes "canonical_constraint (cmp, v)"
  shows "cmp_match ('' '' @ cmp @ '' '' @ v) = Some (cmp, v)"
proof -
  from assms have ne: "cmp \<noteq> []" and allc: "\<forall>x \<in> set cmp. is_cmp x"
    and v: "v = [] \<or> \<not> is_space (hd v)"
    by (simp_all add: canonical_constraint_def)
  from ne allc have hd: "\<not> is_space (hd cmp)" by (simp add: cmp_not_space)
  have 1: "dropWhile is_space ('' '' @ cmp @ '' '' @ v) = cmp @ '' '' @ v"
    using ne hd by (cases cmp) (simp_all add: space_is_space)
  have 2: "takeWhile is_cmp (cmp @ '' '' @ v) = cmp"
    using allc by (simp add: takeWhile_tail space_not_cmp)
  have 3: "dropWhile is_cmp (cmp @ '' '' @ v) = '' '' @ v"
    using allc by (simp add: space_not_cmp)
  have 4: "dropWhile is_space ('' '' @ v) = v"
    using v by (cases v) (simp_all add: space_is_space)
  show ?thesis
    using ne by (simp only: cmp_match_def Let_def 1 2 3 4) simp
qed

lemma cmp_match_inside_name:
  assumes "k \<noteq> []" and "\<forall>x \<in> set k. \<not> is_cmp x" and "\<not> is_space (last k)"
  shows "cmp_match (k @ t) = None"
proof -
  have "last k \<in> set k" using assms(1) by simp
  then have dw: "dropWhile is_space (k @ t) = dropWhile is_space k @ t"
    using assms(3) by (rule dropWhile_append1)
  have ne: "dropWhile is_space k \<noteq> []"
    using assms(1,3) \<open>last k \<in> set k\<close> by (auto simp: dropWhile_eq_Nil_conv)
  then have "hd (dropWhile is_space k) \<in> set k"
    by (metis hd_in_set set_dropWhileD)
  with assms(2) have "\<not> is_cmp (hd (dropWhile is_space k))" by blast
  with ne show ?thesis by (simp add: cmp_match_None_iff dw)
qed

lemma re_split_rendered:
  assumes "canonical_name k" and "canonical_constraint (cmp, v)"
  shows "re_split p (k @ '' '' @ cmp @ '' '' @ v) = [p @ k, cmp, v]"
  using assms(1)
proof (induction k arbitrary: p)
  case Nil
  have "re_split [] v = [v]"
    using assms(2) re_split_no_cmp [of v "[]"] by (simp add: canonical_constraint_def)
  with cmp_match_rendered [OF assms(2)] show ?case by simp
next
  case (Cons c k)
  from Cons.prems have nc: "\<forall>x \<in> set (c # k). \<not> is_cmp x" and l: "\<not> is_space (last (c # k))"
    by (simp_all add: canonical_name_def)
  have "cmp_match ((c # k) @ '' '' @ cmp @ '' '' @ v) = None"
    by (rule cmp_match_inside_name) (use nc l in simp_all)
  moreover have "canonical_name k"
    using nc l by (cases "k = []") (simp_all add: canonical_name_def)
  ultimately show ?case using Cons.IH [of "p @ [c]"] by simp
qed

lemma split_requirement_rendered:
  assumes "canonical_name k" and "canonical_constraint v"
  shows "split_requirement (str_join '' '' [k, fst v, snd v]) = [k, fst v, snd v]"
  using re_split_rendered [OF assms(1), of "fst v" "snd v" "[]"] assms(2)
  by (simp add: split_requirement_def)

subsection \<open>The dictionary of parsed requirements\<close>

lemma dict_setdefault_present:
  "k \<in> fst ` set d \<Longrightarrow> dict_setdefault d k v = d"
  by (induction d) auto

lemma dict_setdefault_absent:
  "k \<notin> fst ` set d \<Longrightarrow> dict_setdefault d k v = d @ [(k, v)]"
  by (induction d) auto

lemma dict_append_absent:
  "k \<notin> fst ` set d \<Longrightarrow> dict_append d k x = d"
  by (induction d) (auto simp: dict_append_def)

lemma dict_append_last:
  "k \<notin> fst ` set d \<Longrightarrow> dict_append (d @ [(k, vs)]) k x = d @ [(k, vs @ [x])]"
  using dict_append_absent [of k d x] by (simp add: dict_append_def)

lemma dict_setdefault_keys:
  "map fst (dict_setdefault d k v) = (if k \<in> fst ` set d then map fst d else map fst d @ [k])"
  by (simp add: dict_setdefault_present dict_setdefault_absent)

lemma dict_append_keys: "map fst (dict_append d k x) = map fst d"
  by (induction d) (auto simp: dict_append_def)

lemma dict_setdefault_set:
  "set (dict_setdefault d k v) = (if k \<in> fst ` set d then set d else insert (k, v) (set d))"
  by (simp add: dict_setdefault_present dict_setdefault_absent)

lemma dict_append_set:
  "kv \<in> set (dict_append d k x) \<Longrightarrow>
     (kv \<in> set d \<and> fst kv \<noteq> k) \<or> (\<exists>vs. (k, vs) \<in> set d \<and> kv = (k, vs @ [x]))"
  by (auto simp: dict_append_def split: if_splits)

lemma good_dict_bare:
  assumes "good_dict d" and "\<forall>x \<in> set k. \<not> is_cmp x"
  shows "good_dict (dict_setdefault d k [])"
  using assms
  by (auto simp: good_dict_def dict_setdefault_keys dict_setdefault_set good_entry_def)

lemma good_dict_constraint:
  assumes "good_dict d" and "canonical_name k" and "canonical_constraint v"
  shows "good_dict (dict_append (dict_setdefault d k []) k v)"
proof -
  have nc: "\<forall>x \<in> set k. \<not> is_cmp x" using assms(2) by (simp add: canonical_name_def)
  have g: "good_dict (dict_setdefault d k [])" by (rule good_dict_bare [OF assms(1) nc])
  have "good_entry kv" if "kv \<in> set (dict_append (dict_setdefault d k []) k v)" for kv
  proof -
    from dict_append_set [OF that] show ?thesis
    proof
      assume "kv \<in> set (dict_setdefault d k []) \<and> fst kv \<noteq> k"
      with g show ?thesis by (simp add: good_dict_def)
    next
      assume "\<exists>vs. (k, vs) \<in> set (dict_setdefault d k []) \<and> kv = (k, vs @ [v])"
      then obtain vs where vs: "(k, vs) \<in> set (dict_setdefault d k [])" and kv: "kv = (k, vs @ [v])"
        by blast
      from g vs have "good_entry (k, vs)" by (simp add: good_dict_def)
      with assms(2,3) kv show ?thesis by (auto simp: good_entry_def)
    qed
  qed
  moreover have "distinct (map fst (dict_append (dict_setdefault d k []) k v))"
    using g by (simp add: dict_append_keys good_dict_def)
  ultimately show ?thesis by (simp add: good_dict_def)
qed

lemma length_1_3: "length xs = 1 \<Longrightarrow> \<exists>a. xs = [a]" "length xs = 3 \<Longrightarrow> \<exists>a b c. xs = [a, b, c]"
  by (auto simp: length_Suc_conv numeral_3_eq_3)

lemma normalize_parse_good:
  "normalize_parse d rs = Inr d' \<Longrightarrow> good_dict d \<Longrightarrow> good_dict d'"
proof (induction rs arbitrary: d)
  case Nil
  then show ?case by simp
next
  case (Cons r rs)
  show ?case
  proof (cases "length (split_requirement r) = 1")
    case True
    then obtain a where a: "split_requirement r = [a]" using length_1_3(1) by blast
    from split_requirement_single [OF a] have "good_dict (dict_setdefault d a [])"
      using Cons.prems(2) by (auto intro: good_dict_bare)
    moreover from Cons.prems(1) a have "normalize_parse (dict_setdefault d a []) rs = Inr d'"
      by simp
    ultimately show ?thesis by (rule Cons.IH [rotated])
  next
    case False
    with Cons.prems(1) have 3: "length (split_requirement r) = 3"
      by (auto simp: Let_def split: if_splits)
    then obtain a b c where abc: "split_requirement r = [a, b, c]" using length_1_3(2) by blast
    from split_requirement_triple [OF abc] Cons.prems(2)
    have "good_dict (dict_append (dict_setdefault d a []) a (b, c))"
      by (auto intro: good_dict_constraint)
    moreover from Cons.prems(1) abc
    have "normalize_parse (dict_append (dict_setdefault d a []) a (b, c)) rs = Inr d'"
      by simp
    ultimately show ?thesis by (rule Cons.IH [rotated])
  qed
qed

lemma normalize_parse_append:
  "normalize_parse d (xs @ ys) =
     (case normalize_parse d xs of Inl err \<Rightarrow> Inl err | Inr d' \<Rightarrow> normalize_parse d' ys)"
  by (induction xs arbitrary: d) (auto simp: Let_def)

lemma normalize_parse_constraints:
  assumes "k \<notin> fst ` set acc" and "canonical_name k" and "\<forall>v \<in> set us. canonical_constraint v"
  shows "normalize_parse (acc @ [(k, ws)]) (map (\<lambda>v. str_join '' '' [k, fst v, snd v]) us)
           = Inr (acc @ [(k, ws @ us)])"
  using assms(3)
proof (induction us arbitrary: ws)
  case Nil
  show ?case by simp
next
  case (Cons u us)
  have sp: "split_requirement (str_join '' '' [k, fst u, snd u]) = [k, fst u, snd u]"
    by (rule split_requirement_rendered) (use assms(2) Cons.prems in simp_all)
  have sd: "dict_setdefault (acc @ [(k, ws)]) k [] = acc @ [(k, ws)]"
    by (rule dict_setdefault_present) simp
  have "normalize_parse (acc @ [(k, ws)]) (map (\<lambda>v. str_join '' '' [k, fst v, snd v]) (u # us))
      = normalize_parse (acc @ [(k, ws @ [u])]) (map (\<lambda>v. str_join '' '' [k, fst v, snd v]) us)"
    using sp sd dict_append_last [OF assms(1), of ws u]
    by (simp del: str_join.simps)
  also have "\<dots> = Inr (acc @ [(k, (ws @ [u]) @ us)])"
    by (rule Cons.IH) (use Cons.prems in simp)
  finally show ?case by simp
qed

lemma normalize_parse_leftovers:
  assumes "k \<notin> fst ` set acc" and "good_entry (k, vs)"
  shows "normalize_parse acc (leftovers_of (k, vs)) = Inr (acc @ [(k, uniq vs)])"
proof (cases "uniq vs = []")
  case True
  have "split_requirement k = [k]"
    by (rule split_requirement_bare) (use assms(2) in \<open>simp add: good_entry_def\<close>)
  then show ?thesis
    using True dict_setdefault_absent [OF assms(1), of "[]"]
    by (simp add: leftovers_of_def)
next
  case False
  then obtain u us where us: "uniq vs = u # us" by (cases "uniq vs") auto
  have "vs \<noteq> []" using False by (auto simp: uniq_Nil)
  with assms(2) have cn: "canonical_name k" by (simp add: good_entry_def)
  have cc: "\<forall>v \<in> set (u # us). canonical_constraint v"
    using assms(2) uniq_set [of vs] us by (auto simp: good_entry_def)
  have sp: "split_requirement (str_join '' '' [k, fst u, snd u]) = [k, fst u, snd u]"
    by (rule split_requirement_rendered) (use cn cc in simp_all)
  have first: "dict_append (dict_setdefault acc k []) k u = acc @ [(k, [] @ [u])]"
    using dict_setdefault_absent [OF assms(1), of "[]"] dict_append_last [OF assms(1), of "[]" u]
    by simp
  have "normalize_parse acc (leftovers_of (k, vs))
      = normalize_parse acc (map (\<lambda>v. str_join '' '' [k, fst v, snd v]) (u # us))"
    using us by (simp add: leftovers_of_def)
  also have "\<dots> = normalize_parse (acc @ [(k, [u])]) (map (\<lambda>v. str_join '' '' [k, fst v, snd v]) us)"
    using sp first by (simp del: str_join.simps)
  also have "\<dots> = Inr (acc @ [(k, [u] @ us)])"
    by (rule normalize_parse_constraints [OF assms(1) cn]) (use cc in simp)
  finally show ?thesis using us by simp
qed

lemma normalize_parse_rendered:
  assumes "distinct (map fst (acc @ d))" and "\<forall>kv \<in> set d. good_entry kv"
  shows "normalize_parse acc (concat (map leftovers_of d))
           = Inr (acc @ map (\<lambda>kv. (fst kv, uniq (snd kv))) d)"
  using assms
proof (induction d arbitrary: acc)
  case Nil
  show ?case by simp
next
  case (Cons kv d)
  obtain k vs where kv: "kv = (k, vs)" by (cases kv) auto
  have fresh: "k \<notin> fst ` set acc" using Cons.prems(1) kv by auto
  have ge: "good_entry (k, vs)" using Cons.prems(2) kv by simp
  have d': "distinct (map fst ((acc @ [(k, uniq vs)]) @ d))" using Cons.prems(1) kv by auto
  have "normalize_parse acc (concat (map leftovers_of (kv # d)))
      = normalize_parse (acc @ [(k, uniq vs)]) (concat (map leftovers_of d))"
    using normalize_parse_leftovers [OF fresh ge] kv by (simp add: normalize_parse_append)
  also have "\<dots> = Inr ((acc @ [(k, uniq vs)]) @ map (\<lambda>kv. (fst kv, uniq (snd kv))) d)"
    by (rule Cons.IH [OF d']) (use Cons.prems(2) in simp)
  finally show ?case using kv by simp
qed

lemma leftovers_of_uniq: "leftovers_of (fst kv, uniq (snd kv)) = leftovers_of kv"
  by (simp add: leftovers_of_def uniq_idem)

lemma normalize_requirements_fixed:
  assumes "normalize_requirements R = Inr L"
  shows "normalize_requirements L = Inr L"
proof -
  from assms obtain d where d: "normalize_parse [] R = Inr d"
    and L: "L = concat (map leftovers_of d)"
    by (auto simp: normalize_requirements_def split: sum.splits)
  have "good_dict []" by (simp add: good_dict_def)
  with d have g: "good_dict d" by (rule normalize_parse_good)
  have "normalize_parse [] L = Inr ([] @ map (\<lambda>kv. (fst kv, uniq (snd kv))) d)"
    unfolding L by (rule normalize_parse_rendered) (use g in \<open>simp_all add: good_dict_def\<close>)
  moreover have "concat (map leftovers_of (map (\<lambda>kv. (fst kv, uniq (snd kv))) d)) = L"
    unfolding L by (simp add: map_map comp_def leftovers_of_uniq)
  ultimately show ?thesis by (simp add: normalize_requirements_def)
qed

lemma normalize_parse_total:
  "(\<exists>d'. normalize_parse d rs = Inr d') \<longleftrightarrow>
     (\<forall>r \<in> set rs. length (split_requirement r) = 1 \<or> length (split_requirement r) = 3)"
  by (induction rs arbitrary: d) (auto simp: Let_def)

lemma normalize_requirements_total:
  "(\<exists>L. normalize_requirements R = Inr L) \<longleftrightarrow>
     (\<forall>r \<in> set R. length (split_requirement r) = 1 \<or> length (split_requirement r) = 3)"
  using normalize_parse_total [of "[]" R]
  by (auto simp: normalize_requirements_def split: sum.splits)


subsection \<open>Resolving requirements\<close>

lemma pkgconfig_name: "pkgconfig db nm = Inr p \<Longrightarrow> name p = nm"
  by (auto simp: pkgconfig_def split: option.splits)

lemma check_requirement_name:
  "check_requirement db r = Inr p \<Longrightarrow> name p = split_requirement r ! 0"
  by (auto simp: check_requirement_def Let_def pkgconfig_name split: if_splits sum.splits)

lemma check_packages_loop_Inr:
  "check_packages_loop db used retval reqs = Inr res
   \<Longrightarrow> distinct (map (\<lambda>r. split_requirement r ! 0) reqs)
       \<and> (\<forall>r \<in> set reqs. split_requirement r ! 0 \<notin> used)"
proof (induction reqs arbitrary: used retval)
  case Nil
  show ?case by simp
next
  case (Cons r reqs)
  from Cons.prems obtain p where p: "check_requirement db r = Inr p"
    and fresh: "name p \<notin> used"
    and rest: "check_packages_loop db (insert (name p) used) (retval @ [p]) reqs = Inr res"
    by (auto split: sum.splits if_splits)
  have nm: "name p = split_requirement r ! 0"
    by (rule check_requirement_name [OF p])
  from Cons.IH [OF rest] nm fresh show ?case by auto
qed

lemma check_packages_loop_dup:
  assumes "\<forall>r \<in> set reqs. \<exists>p. check_requirement db r = Inr p"
    and "\<not> (distinct (map (\<lambda>r. split_requirement r ! 0) reqs)
         \<and> (\<forall>r \<in> set reqs. split_requirement r ! 0 \<notin> used))"
  shows "check_packages_loop db used retval reqs = Inl RuntimeError_already_requested"
  using assms
proof (induction reqs arbitrary: used retval)
  case Nil
  then show ?case by simp
next
  case (Cons r reqs)
  from Cons.prems(1) obtain p where p: "check_requirement db r = Inr p" by auto
  have nm: "name p = split_requirement r ! 0"
    by (rule check_requirement_name [OF p])
  have rest: "\<forall>r \<in> set reqs. \<exists>p. check_requirement db r = Inr p"
    using Cons.prems(1) by simp
  show ?case
  proof (cases "name p \<in> used")
    case True
    then show ?thesis using p by simp
  next
    case False
    have "\<not> (distinct (map (\<lambda>r. split_requirement r ! 0) reqs)
         \<and> (\<forall>r \<in> set reqs. split_requirement r ! 0 \<notin> insert (name p) used))"
      using Cons.prems(2) False nm by auto
    from Cons.IH [OF rest this] show ?thesis using p False by simp
  qed
qed

lemma check_packages_loop_prefix:
  assumes "\<forall>q \<in> set pre. \<exists>p. check_requirement db q = Inr p"
    and "distinct (map (\<lambda>q. split_requirement q ! 0) pre)"
    and "\<forall>q \<in> set pre. split_requirement q ! 0 \<notin> used"
  shows "check_packages_loop db used retval (pre @ rest)
     = check_packages_loop db (used \<union> (\<lambda>q. split_requirement q ! 0) ` set pre)
         (retval @ map (\<lambda>q. projr (check_requirement db q)) pre) rest"
  using assms
proof (induction pre arbitrary: used retval)
  case Nil
  show ?case by simp
next
  case (Cons q pre)
  from Cons.prems(1) obtain p where p: "check_requirement db q = Inr p" by auto
  have nm: "name p = split_requirement q ! 0"
    by (rule check_requirement_name [OF p])
  have fresh: "name p \<notin> used"
    using Cons.prems(3) nm by simp
  have 1: "\<forall>q \<in> set pre. \<exists>p. check_requirement db q = Inr p"
    using Cons.prems(1) by simp
  have 2: "distinct (map (\<lambda>q. split_requirement q ! 0) pre)"
    using Cons.prems(2) by simp
  have 3: "\<forall>r \<in> set pre. split_requirement r ! 0 \<notin> insert (name p) used"
    using Cons.prems(2,3) nm by (auto simp: image_iff)
  have "check_packages_loop db used retval ((q # pre) @ rest)
      = check_packages_loop db (insert (name p) used) (retval @ [p]) (pre @ rest)"
    using p fresh by simp
  also have "\<dots> = check_packages_loop db
        (insert (name p) used \<union> (\<lambda>q. split_requirement q ! 0) ` set pre)
        ((retval @ [p]) @ map (\<lambda>q. projr (check_requirement db q)) pre) rest"
    by (rule Cons.IH [OF 1 2 3])
  finally show ?case
    using p nm by simp
qed


subsection \<open>Reordering system includes\<close>

lemma isystem_scan_eq:
  "isystem_scan False rmd incs args =
     (if isystem_dangling args then Inl IndexError
      else Inr (rmd @ isystem_others args, incs @ isystem_paths args))"
proof (induction args arbitrary: rmd incs rule: isystem_dangling.induct)
  case 1
  show ?case by simp
next
  case (2 a)
  show ?case by simp
next
  case (3 a b rest)
  show ?case
  proof (cases "a = ''-isystem''")
    case True
    then show ?thesis using 3(1) [OF True] by simp
  next
    case False
    then show ?thesis using 3(2) [OF False] by simp
  qed
qed

lemma remdups_snoc: "remdups (ys @ [x]) = filter (\<lambda>y. y \<noteq> x) (remdups ys) @ [x]"
  by (induction ys) auto

lemma uniq_remdups: "uniq xs = rev (remdups (rev xs))"
proof (induction xs)
  case Nil
  show ?case by (simp add: uniq_Nil)
next
  case (Cons x xs)
  have "uniq (x # xs) = x # filter (\<lambda>y. y \<noteq> x) (uniq xs)"
    by (simp add: uniq_Cons uniq_filter)
  also have "\<dots> = rev (filter (\<lambda>y. y \<noteq> x) (remdups (rev xs)) @ [x])"
    by (simp add: Cons.IH rev_filter)
  also have "\<dots> = rev (remdups (rev (x # xs)))"
    by (simp add: remdups_snoc)
  finally show ?case .
qed

lemma rev_uniq_rev: "rev (uniq (rev xs)) = remdups xs"
  by (simp add: uniq_remdups)

lemma isystem_key_inj: "inj isystem_key"
  by (auto simp: inj_on_def isystem_key_def)

lemma isystem_key_less:
  "isystem_key a < isystem_key b \<longleftrightarrow> length b < length a \<or> (length a = length b \<and> a < b)"
  by (auto simp: isystem_key_def less_prod_def)

lemma sort_isystem_sorted:
  assumes "distinct xs"
  shows "sorted_wrt (\<lambda>a b. length b < length a \<or> (length a = length b \<and> a < b))
           (sort_key isystem_key xs)"
proof -
  have "distinct (map isystem_key (sort_key isystem_key xs))"
    using assms isystem_key_inj by (simp add: distinct_map inj_on_def)
  moreover have "sorted (map isystem_key (sort_key isystem_key xs))"
    by simp
  ultimately have "sorted_wrt (<) (map isystem_key (sort_key isystem_key xs))"
    by (simp add: strict_sorted_iff)
  then show ?thesis
    by (simp add: sorted_wrt_map isystem_key_less)
qed

lemma reorganize_isystem_eq:
  "reorganize_isystem args =
     (if isystem_dangling args then Inl IndexError
      else Inr (isystem_others args
             @ concat (map (\<lambda>k. [''-isystem'', k])
                 (sort_key isystem_key (remdups (isystem_paths args))))))"
  by (simp add: reorganize_isystem_def isystem_scan_eq rev_uniq_rev)


subsection \<open>Self macros and library names\<close>

lemma str_rsplit1_last:
  assumes "CHR ''.'' \<notin> set nm"
  shows "str_rsplit1 (CHR ''.'') (pre @ ''.'' @ nm) = [pre, nm]"
proof -
  have tw: "takeWhile (\<lambda>c. c \<noteq> CHR ''.'') (rev nm @ CHR ''.'' # rev pre) = rev nm"
    using assms by (auto simp: takeWhile_tail)
  have dw: "dropWhile (\<lambda>c. c \<noteq> CHR ''.'') (rev nm @ CHR ''.'' # rev pre) = CHR ''.'' # rev pre"
    using assms by (auto simp: dropWhile_append3)
  show ?thesis
    by (simp add: str_rsplit1_def tw dw)
qed

lemma str_rsplit1_no_sep: "sep \<notin> set s \<Longrightarrow> str_rsplit1 sep s = [s]"
  by (simp add: str_rsplit1_def)

lemma generate_self_macros_versioned:
  assumes "CHR ''.'' \<notin> set nm"
  shows "generate_self_macros e (pre @ ''.'' @ nm) (Some v) =
    Inr ([(''BOB_EXT_MODULE_PREFIX'', quoted pre), (''BOB_EXT_MODULE_NAME'', quoted nm),
          (''BOB_EXT_ENTRY_NAME'', (if python_major e \<ge> 3 then ''PyInit_'' else ''init'') @ nm)]
         @ (if v \<noteq> [] then [(''BOB_EXT_MODULE_VERSION'', quoted v)] else []))"
  using str_rsplit1_last [OF assms, of pre]
  by (simp add: generate_self_macros_def Let_def)

lemma generate_self_macros_None: "generate_self_macros e extname None = Inr []"
  by (simp add: generate_self_macros_def)

lemma generate_self_macros_no_dot:
  "CHR ''.'' \<notin> set extname \<Longrightarrow> generate_self_macros e extname (Some v) = Inl IndexError"
  by (simp add: generate_self_macros_def str_rsplit1_no_sep)

lemma startswith_find: "str_find s sub = 0 \<longleftrightarrow> startswith s sub"
proof (cases s)
  case Nil
  then show ?thesis by (auto simp: startswith_def)
next
  case (Cons c s')
  have "\<And>r :: int. (if r < 0 then - 1 else r + 1) \<noteq> 0 \<or> False \<or> r = -1 \<and> False"
    by auto
  moreover have "str_find s' sub \<ge> -1"
    by (induction s' sub rule: str_find.induct) (auto simp: Let_def)
  ultimately show ?thesis using Cons
    by (auto simp: Let_def)
qed

lemma decorate_libraries_cases:
  "decorate_libraries e pkg =
     (if startswith (name pkg) ''bob-''
      then (if platform_system e = ''Darwin''
            then Inr (map (\<lambda>k. k @ ''.'' @ version pkg) (pc_libraries pkg))
            else if platform_system e = ''Linux''
            then Inr (map (\<lambda>k. '':lib'' @ k @ ''.so.'' @ version pkg) (pc_libraries pkg))
            else Inl RuntimeError_unsupported_platform)
      else Inr (pc_libraries pkg))"
  by (simp add: decorate_libraries_def startswith_find)

lemma add_include_macros [simp]:
  "par_define_macros (add_include u s st k) = par_define_macros st"
  by (simp add: add_include_def)

lemma foldl_add_include_macros [simp]:
  "par_define_macros (foldl (add_include u s) st ks) = par_define_macros st"
  by (induction ks arbitrary: st) simp_all

lemma resolve_boost_macros:
  "resolve_boost inst boost_req boost_modules u s st = Inr st'
    \<Longrightarrow> \<exists>zs. par_define_macros st' = par_define_macros st @ zs"
  by (auto simp: resolve_boost_def Let_def split: if_splits sum.splits prod.splits)

lemma add_package_macros:
  "add_package e u s st pkg = Inr st'
    \<Longrightarrow> par_define_macros st' = par_define_macros st @ package_macros pkg"
  by (auto simp: add_package_def Let_def split: sum.splits)

lemma add_packages_macros:
  "add_packages e u s st pkgs = Inr st'
    \<Longrightarrow> \<exists>zs. par_define_macros st' = par_define_macros st @ zs"
proof (induction pkgs arbitrary: st)
  case Nil
  then show ?case by simp
next
  case (Cons pkg pkgs)
  from Cons.prems obtain st1 where 1: "add_package e u s st pkg = Inr st1"
    and 2: "add_packages e u s st1 pkgs = Inr st'"
    by (auto split: sum.splits)
  from Cons.IH [OF 2] obtain zs where "par_define_macros st' = par_define_macros st1 @ zs" ..
  with add_package_macros [OF 1] show ?case by simp
qed

lemma finish_extension_macros:
  "finish_extension e inst nm kw bob u s st = Inr (x, h')
    \<Longrightarrow> define_macros x = uniq (par_define_macros st @ opt_list (kw_define_macros kw))"
  by (auto simp: finish_extension_def Let_def split: prod.splits sum.splits if_splits)

lemma Extension_init_Inr:
  assumes "Extension_init e inst h nm kw = Inr (x, h')"
  obtains pkgs bob s h1 boost_req pkgs' ms u h2 st1 resolved st2 where
    "normalize_requirements (map (\<lambda>k. str_lower (str_strip k)) (as_list (kw_packages kw))) = Inr pkgs"
    "get_bob_libraries e inst (kw_bob_packages kw) = Inr bob"
    "ref_or_new (kw_system_include_dirs kw) h = (s, h1)"
    "extract_boost pkgs (as_list (kw_boost_modules kw)) = (boost_req, pkgs')"
    "generate_self_macros e nm (kw_version kw) = Inr ms"
    "ref_or_new (kw_include_dirs kw) h1 = (u, h2)"
    "resolve_boost inst boost_req (as_list (kw_boost_modules kw)) u s
       (init_assembly e h2 ms (fst (snd bob))) = Inr st1"
    "check_packages (pkg_config_db inst) pkgs' = Inr resolved"
    "add_packages e u s st1 resolved = Inr st2"
    "finish_extension e inst nm kw bob u s st2 = Inr (x, h')"
  using assms
  by (auto simp: Extension_init_def Let_def split: sum.splits prod.splits)

lemma Extension_init_self_macros:
  assumes "Extension_init e inst h nm kw = Inr (x, h')"
  shows "\<exists>ms. generate_self_macros e nm (kw_version kw) = Inr ms \<and> set ms \<subseteq> set (define_macros x)"
proof -
  from assms obtain bob s boost_req ms u h2 st1 resolved st2
    where ms: "generate_self_macros e nm (kw_version kw) = Inr ms"
      and b: "resolve_boost inst boost_req (as_list (kw_boost_modules kw)) u s
                (init_assembly e h2 ms (fst (snd bob))) = Inr st1"
      and a: "add_packages e u s st1 resolved = Inr st2"
      and f: "finish_extension e inst nm kw bob u s st2 = Inr (x, h')"
    by (rule Extension_init_Inr)
  from resolve_boost_macros [OF b] obtain zs1 where 1: "par_define_macros st1 = ms @ zs1"
    by (auto simp: init_assembly_def)
  from add_packages_macros [OF a] obtain zs2
    where 2: "par_define_macros st2 = par_define_macros st1 @ zs2" ..
  from finish_extension_macros [OF f] 1 2 have "set ms \<subseteq> set (define_macros x)"
    by (simp add: uniq_set)
  with ms show ?thesis by blast
qed

subsection \<open>Building libraries first\<close>

lemma build_libraries_Inr:
  "\<forall>l \<in> set (library_targets ts). compile l (os_path_join bl (ext_name l))
   \<Longrightarrow> build_libraries compile bl (libs, lib_dirs, inc_dirs) ts =
         Inr (libs @ map c_name (library_targets ts),
              lib_dirs @ map c_target_directory (library_targets ts),
              inc_dirs @ map (\<lambda>l. os_path_join (c_target_directory l) ''include'')
                           (library_targets ts))"
proof (induction ts arbitrary: libs lib_dirs inc_dirs)
  case Nil
  show ?case by simp
next
  case (Cons t ts)
  show ?case
  proof (cases t)
    case (ExtensionT x)
    with Cons show ?thesis by simp
  next
    case (LibraryT l)
    with Cons.prems have ok: "compile l (os_path_join bl (ext_name l))"
      and rest: "\<forall>l \<in> set (library_targets ts). compile l (os_path_join bl (ext_name l))"
      by simp_all
    show ?thesis
      using LibraryT ok Cons.IH [OF rest] by simp
  qed
qed

lemma build_libraries_Inl:
  "\<not> (\<forall>l \<in> set (library_targets ts). compile l (os_path_join bl (ext_name l)))
   \<Longrightarrow> build_libraries compile bl acc ts = Inl OSError"
proof (induction ts arbitrary: acc)
  case Nil
  then show ?case by simp
next
  case (Cons t ts)
  show ?case
  proof (cases t)
    case (ExtensionT x)
    with Cons show ?thesis by simp
  next
    case (LibraryT l)
    obtain libs lib_dirs inc_dirs where acc: "acc = (libs, lib_dirs, inc_dirs)"
      by (cases acc) auto
    show ?thesis
    proof (cases "compile l (os_path_join bl (ext_name l))")
      case True
      with Cons.prems LibraryT
      have "\<not> (\<forall>l \<in> set (library_targets ts). compile l (os_path_join bl (ext_name l)))"
        by simp
      from Cons.IH [OF this] show ?thesis using LibraryT True acc by simp
    next
      case False
      then show ?thesis using LibraryT acc by simp
    qed
  qed
qed

lemma map_set_defaults:
  "map (set_defaults (libs, lib_dirs, inc_dirs)) (filter (\<lambda>ext. \<not> is_Library ext) ts) =
   map (\<lambda>x. ExtensionT (x\<lparr>libraries := libs @ libraries x,
                            library_dirs := lib_dirs @ library_dirs x,
                            include_dirs := inc_dirs @ include_dirs x\<rparr>))
     (extension_targets ts)"
proof (induction ts)
  case Nil
  show ?case by simp
next
  case (Cons t ts)
  then show ?case by (cases t) simp_all
qed


subsection \<open>What the comparison for \<^verbatim>\<open>==\<close> does\<close>

lemma check_version_equality: "check_version p ''=='' v = py_assert (pkg_le p v)"
  by (simp add: check_version_def)

lemma check_packages_equality:
  assumes "canonical_name nm" and "canonical_constraint (''=='', v)"
  shows "check_packages db [nm @ '' == '' @ v] =
     (case db nm of
        None \<Rightarrow> Inl PackageNotFound
      | Some p \<Rightarrow> if pkg_le (p\<lparr>name := nm\<rparr>) v then Inr [p\<lparr>name := nm\<rparr>]
                  else Inl AssertionError)"
proof -
  have "split_requirement (nm @ '' == '' @ v) = [nm, ''=='', v]"
    using split_requirement_rendered [OF assms] by simp
  then show ?thesis
    by (simp add: check_packages_def uniq_def check_requirement_def pkgconfig_def
        check_version_equality py_assert_def split: option.splits)
qed

subsection \<open>Lists the include loop leaves alone\<close>

lemma add_include_libraries [simp]:
  "par_libraries (add_include u s st k) = par_libraries st"
  "pkg_libraries (add_include u s st k) = pkg_libraries st"
  by (simp_all add: add_include_def)

lemma foldl_add_include_libraries [simp]:
  "par_libraries (foldl (add_include u s) st ks) = par_libraries st"
  "pkg_libraries (foldl (add_include u s) st ks) = pkg_libraries st"
  by (induction ks arbitrary: st) simp_all

subsection \<open>The loop that takes out the Boost requirement\<close>

lemma boost_loop_no_boost:
  "\<forall>j. i \<le> j \<and> j < length pkgs \<longrightarrow> \<not> startswith (pkgs ! j) ''boost''
   \<Longrightarrow> boost_loop i req pkgs = (req, pkgs)"
proof (induction i req pkgs rule: boost_loop.induct)
  case (1 i boost_req pkgs)
  show ?case
  proof (cases "i < length pkgs")
    case True
    with 1(3) have nb: "\<not> startswith (pkgs ! i) ''boost''" by simp
    have "\<forall>j. Suc i \<le> j \<and> j < length pkgs \<longrightarrow> \<not> startswith (pkgs ! j) ''boost''"
      using 1(3) by simp
    from 1(2) [OF True nb this] show ?thesis
      using True nb by (subst boost_loop.simps) simp
  next
    case False
    then show ?thesis by (subst boost_loop.simps) simp
  qed
qed

lemma extract_boost_default:
  assumes "\<forall>p \<in> set pkgs. \<not> startswith p ''boost''"
  shows "extract_boost pkgs boost_modules =
     ((if boost_modules \<noteq> [] then ''boost >= 1.0'' else []), pkgs)"
proof -
  have "boost_loop 0 [] pkgs = ([], pkgs)"
    by (rule boost_loop_no_boost) (use assms in simp)
  then show ?thesis by (simp add: extract_boost_def)
qed

lemma boost_loop_skip:
  assumes "i \<le> length xs" and "\<forall>p \<in> set xs. \<not> startswith p ''boost''"
  shows "boost_loop i req (xs @ ys) = boost_loop (length xs) req (xs @ ys)"
  using assms
proof (induction "length xs - i" arbitrary: i)
  case 0
  then show ?case by simp
next
  case (Suc n)
  then have lt: "i < length xs" by simp
  then have nb: "\<not> startswith ((xs @ ys) ! i) ''boost''"
    using Suc.prems(2) by (simp add: nth_append)
  have "boost_loop i req (xs @ ys) = boost_loop (Suc i) req (xs @ ys)"
    using lt nb by (subst boost_loop.simps) simp
  also have "\<dots> = boost_loop (length xs) req (xs @ ys)"
    by (rule Suc.hyps(1)) (use Suc.hyps(2) lt Suc.prems(2) in simp_all)
  finally show ?case .
qed

lemma extract_boost_single:
  assumes "\<forall>p \<in> set xs. \<not> startswith p ''boost''" and "startswith b ''boost''"
    and "\<forall>p \<in> set ys. \<not> startswith p ''boost''"
  shows "extract_boost (xs @ b # ys) boost_modules = (b, xs @ ys)"
proof -
  have b_ne: "b \<noteq> []" using assms(2) by (auto simp: startswith_def)
  have "boost_loop 0 [] (xs @ b # ys) = boost_loop (length xs) [] (xs @ b # ys)"
    by (rule boost_loop_skip) (use assms(1) in simp_all)
  also have "\<dots> = boost_loop (Suc (length xs)) b (xs @ ys)"
    using assms(2) by (subst boost_loop.simps) (simp add: list_del_def)
  also have "\<dots> = (b, xs @ ys)"
  proof (rule boost_loop_no_boost, intro allI impI)
    fix j
    assume j: "Suc (length xs) \<le> j \<and> j < length (xs @ ys)"
    then have "(xs @ ys) ! j = ys ! (j - length xs)" by (simp add: nth_append)
    moreover have "j - length xs < length ys" using j by auto
    ultimately show "\<not> startswith ((xs @ ys) ! j) ''boost''"
      using assms(3) by (metis nth_mem)
  qed
  finally show ?thesis using b_ne by (simp add: extract_boost_def)
qed

lemma boost_loop_keeps_visited:
  "take i (snd (boost_loop i req pkgs)) = take i pkgs"
proof (induction i req pkgs rule: boost_loop.induct)
  case (1 i boost_req pkgs)
  show ?case
  proof (cases "i < length pkgs")
    case False
    then show ?thesis by (subst boost_loop.simps) simp
  next
    case True
    show ?thesis
    proof (cases "startswith (pkgs ! i) ''boost''")
      case b: True
      have "take (Suc i) (snd (boost_loop (Suc i) (pkgs ! i) (list_del pkgs i)))
          = take (Suc i) (list_del pkgs i)"
        by (rule 1(1) [OF True b])
      then have "take i (take (Suc i) (snd (boost_loop (Suc i) (pkgs ! i) (list_del pkgs i))))
          = take i (take (Suc i) (list_del pkgs i))"
        by simp
      then have "take i (snd (boost_loop (Suc i) (pkgs ! i) (list_del pkgs i))) = take i pkgs"
        using True by (simp add: list_del_def min_def)
      then show ?thesis using True b by (subst boost_loop.simps) simp
    next
      case nb: False
      have "take (Suc i) (snd (boost_loop (Suc i) boost_req pkgs)) = take (Suc i) pkgs"
        by (rule 1(2) [OF True nb])
      then have "take i (take (Suc i) (snd (boost_loop (Suc i) boost_req pkgs)))
          = take i (take (Suc i) pkgs)"
        by simp
      then have "take i (snd (boost_loop (Suc i) boost_req pkgs)) = take i pkgs"
        by (simp add: min_def)
      then show ?thesis using True nb by (subst boost_loop.simps) simp
    qed
  qed
qed

lemma extract_boost_keeps_neighbour:
  assumes "\<forall>p \<in> set xs. \<not> startswith p ''boost''" and "startswith b ''boost''"
  shows "take (Suc (length xs)) (snd (extract_boost (xs @ b # c # ys) boost_modules)) = xs @ [c]"
proof -
  have "boost_loop 0 [] (xs @ b # c # ys) = boost_loop (length xs) [] (xs @ b # c # ys)"
    by (rule boost_loop_skip) (use assms(1) in simp_all)
  also have "\<dots> = boost_loop (Suc (length xs)) b (xs @ c # ys)"
    using assms(2) by (subst boost_loop.simps) (simp add: list_del_def)
  finally have "snd (boost_loop 0 [] (xs @ b # c # ys))
      = snd (boost_loop (Suc (length xs)) b (xs @ c # ys))"
    by simp
  moreover have "take (Suc (length xs)) (snd (boost_loop (Suc (length xs)) b (xs @ c # ys)))
      = take (Suc (length xs)) (xs @ c # ys)"
    by (rule boost_loop_keeps_visited)
  moreover have "snd (extract_boost (xs @ b # c # ys) boost_modules)
      = snd (boost_loop 0 [] (xs @ b # c # ys))"
    by (cases "boost_loop 0 [] (xs @ b # c # ys)") (simp add: extract_boost_def)
  ultimately show ?thesis
    by simp
qed

subsection \<open>What the constructor does to the store\<close>

lemma heap_grows_refl: "heap_grows h h"
  by (simp add: heap_grows_def)

lemma heap_grows_trans: "heap_grows h1 h2 \<Longrightarrow> heap_grows h2 h3 \<Longrightarrow> heap_grows h1 h3"
  unfolding heap_grows_def by (meson le_trans less_le_trans prefix_order.order_trans)

lemma heap_grows_new: "heap_grows h (snd (heap_new h xs))"
  by (simp add: heap_grows_def heap_new_def nth_append)

lemma heap_grows_extend: "heap_grows h (heap_extend h r xs)"
proof (cases "r < length h")
  case True
  then show ?thesis
    by (auto simp: heap_grows_def heap_extend_def nth_list_update)
next
  case False
  then show ?thesis
    by (simp add: heap_grows_def heap_extend_def list_update_beyond)
qed

lemma heap_grows_ref_or_new: "ref_or_new v h = (r, h') \<Longrightarrow> heap_grows h h'"
  using heap_grows_new [of h "[]"]
  by (auto simp: ref_or_new_def heap_grows_refl split: option.splits)

lemma ref_or_new_Some: "ref_or_new (Some r) h = (r, h)"
  by (simp add: ref_or_new_def)

lemma heap_grows_resolve_boost:
  "resolve_boost inst boost_req boost_modules u s st = Inr st' \<Longrightarrow> heap_grows (heap st) (heap st')"
  by (auto simp: resolve_boost_def Let_def heap_grows_refl heap_grows_extend
      split: if_splits sum.splits prod.splits)

lemma heap_grows_add_include: "heap_grows (heap st) (heap (add_include u s st k))"
  by (simp add: add_include_def heap_grows_refl heap_grows_extend)

lemma heap_grows_add_includes: "heap_grows (heap st) (heap (foldl (add_include u s) st ks))"
proof (induction ks arbitrary: st)
  case Nil
  show ?case by (simp add: heap_grows_refl)
next
  case (Cons k ks)
  show ?case
    using heap_grows_trans [OF heap_grows_add_include Cons] by simp
qed

lemma heap_grows_add_package:
  "add_package e u s st pkg = Inr st' \<Longrightarrow> heap_grows (heap st) (heap st')"
  using heap_grows_add_includes
    [of "st\<lparr>par_define_macros := par_define_macros st @ package_macros pkg,
            pkg_macros := pkg_macros st @ package_macros pkg\<rparr>" u s "include_directories pkg"]
  by (auto simp: add_package_def Let_def split: sum.splits)

lemma heap_grows_add_packages:
  "add_packages e u s st pkgs = Inr st' \<Longrightarrow> heap_grows (heap st) (heap st')"
proof (induction pkgs arbitrary: st)
  case Nil
  then show ?case by (simp add: heap_grows_refl)
next
  case (Cons pkg pkgs)
  from Cons.prems obtain st1 where 1: "add_package e u s st pkg = Inr st1"
    and 2: "add_packages e u s st1 pkgs = Inr st'"
    by (auto split: sum.splits)
  from heap_grows_add_package [OF 1] Cons.IH [OF 2] show ?case
    by (rule heap_grows_trans)
qed

lemma finish_extension_heap:
  assumes "finish_extension e inst nm kw bob u s st = Inr (x, h')"
  shows "\<exists>inc h1 h2. ref_or_new (kw_include_dirs kw) (heap st) = (inc, h1)
     \<and> h2 = heap_extend h1 inc [resource_filename inst ''bob.extension'' ''include'']
     \<and> (if platform_system e = ''Linux''
         then (\<exists>rt h3 xs. ref_or_new (kw_runtime_library_dirs kw) h2 = (rt, h3)
                 \<and> h' = heap_extend h3 rt xs)
         else h' = h2)"
proof -
  obtain bi bl bd where bob: "bob = (bi, bl, bd)" by (cases bob) auto
  obtain inc h1 where inc: "ref_or_new (kw_include_dirs kw) (heap st) = (inc, h1)"
    by (cases "ref_or_new (kw_include_dirs kw) (heap st)") auto
  define h2 where "h2 = heap_extend h1 inc [resource_filename inst ''bob.extension'' ''include'']"
  obtain rt h3 where rt: "ref_or_new (kw_runtime_library_dirs kw) h2 = (rt, h3)"
    by (cases "ref_or_new (kw_runtime_library_dirs kw) h2") auto
  from assms have "(if platform_system e = ''Linux''
         then (\<exists>xs. h' = heap_extend h3 rt xs) else h' = h2)"
    unfolding finish_extension_def bob
    by (simp add: Let_def inc h2_def [symmetric] rt split: sum.splits if_splits) blast
  with inc rt h2_def show ?thesis by auto
qed


lemma finish_extension_include_dirs:
  assumes "finish_extension e inst nm kw bob u s st = Inr (x, h')"
    and "kw_include_dirs kw = Some r" and "r < length (heap st)"
  shows "prefix (heap st ! r @ [resource_filename inst ''bob.extension'' ''include'']) (h' ! r)"
proof -
  from finish_extension_heap [OF assms(1)] assms(2) obtain h2 where
    h2: "h2 = heap_extend (heap st) r [resource_filename inst ''bob.extension'' ''include'']"
    and h': "if platform_system e = ''Linux''
         then (\<exists>rt h3 xs. ref_or_new (kw_runtime_library_dirs kw) h2 = (rt, h3)
                 \<and> h' = heap_extend h3 rt xs)
         else h' = h2"
    by (auto simp: ref_or_new_Some)
  have h2r: "h2 ! r = heap st ! r @ [resource_filename inst ''bob.extension'' ''include'']"
    using assms(3) by (simp add: h2 heap_extend_def)
  have len: "r < length h2" using assms(3) by (simp add: h2 heap_extend_def)
  have "heap_grows h2 h'"
  proof (cases "platform_system e = ''Linux''")
    case True
    with h' obtain rt h3 xs where rt: "ref_or_new (kw_runtime_library_dirs kw) h2 = (rt, h3)"
      and eq: "h' = heap_extend h3 rt xs"
      by auto
    from heap_grows_ref_or_new [OF rt] heap_grows_extend [of h3 rt xs] show ?thesis
      unfolding eq by (rule heap_grows_trans)
  next
    case False
    with h' show ?thesis by (simp add: heap_grows_refl)
  qed
  with len have "prefix (h2 ! r) (h' ! r)" by (simp add: heap_grows_def)
  with h2r show ?thesis by simp
qed

lemma finish_extension_grows:
  assumes "finish_extension e inst nm kw bob u s st = Inr (x, h')"
  shows "heap_grows (heap st) h'"
proof -
  from finish_extension_heap [OF assms] obtain inc h1 h2 where
    inc: "ref_or_new (kw_include_dirs kw) (heap st) = (inc, h1)"
    and h2: "h2 = heap_extend h1 inc [resource_filename inst ''bob.extension'' ''include'']"
    and h': "if platform_system e = ''Linux''
         then (\<exists>rt h3 xs. ref_or_new (kw_runtime_library_dirs kw) h2 = (rt, h3)
                 \<and> h' = heap_extend h3 rt xs)
         else h' = h2"
    by blast
  have 1: "heap_grows (heap st) h2"
    using heap_grows_ref_or_new [OF inc] heap_grows_extend [of h1 inc] unfolding h2
    by (rule heap_grows_trans)
  have 2: "heap_grows h2 h'"
  proof (cases "platform_system e = ''Linux''")
    case True
    with h' obtain rt h3 xs where rt: "ref_or_new (kw_runtime_library_dirs kw) h2 = (rt, h3)"
      and eq: "h' = heap_extend h3 rt xs"
      by auto
    from heap_grows_ref_or_new [OF rt] heap_grows_extend [of h3 rt xs] show ?thesis
      unfolding eq by (rule heap_grows_trans)
  next
    case False
    with h' show ?thesis by (simp add: heap_grows_refl)
  qed
  from 1 2 show ?thesis by (rule heap_grows_trans)
qed

lemma Extension_init_store:
  assumes "Extension_init e inst h nm kw = Inr (x, h')"
  shows "heap_grows h h'"
    and "kw_include_dirs kw = Some r \<Longrightarrow> r < length h \<Longrightarrow> length (h ! r) < length (h' ! r)"
proof -
  from assms obtain bob s h1 boost_req ms u h2 st1 resolved st2
    where s: "ref_or_new (kw_system_include_dirs kw) h = (s, h1)"
      and u: "ref_or_new (kw_include_dirs kw) h1 = (u, h2)"
      and b: "resolve_boost inst boost_req (as_list (kw_boost_modules kw)) u s
                (init_assembly e h2 ms (fst (snd bob))) = Inr st1"
      and a: "add_packages e u s st1 resolved = Inr st2"
      and f: "finish_extension e inst nm kw bob u s st2 = Inr (x, h')"
    by (rule Extension_init_Inr)
  have g: "heap_grows h (heap st2)"
  proof -
    have "heap_grows h h1" by (rule heap_grows_ref_or_new [OF s])
    moreover have "heap_grows h1 h2" by (rule heap_grows_ref_or_new [OF u])
    moreover have "heap_grows h2 (heap st1)"
      using heap_grows_resolve_boost [OF b] by (simp add: init_assembly_def)
    moreover have "heap_grows (heap st1) (heap st2)" by (rule heap_grows_add_packages [OF a])
    ultimately show ?thesis by (blast intro: heap_grows_trans)
  qed
  from g finish_extension_grows [OF f] show "heap_grows h h'" by (rule heap_grows_trans)
  show "length (h ! r) < length (h' ! r)" if r: "kw_include_dirs kw = Some r" and lt: "r < length h"
  proof -
    from g lt have r2: "r < length (heap st2)" and p: "prefix (h ! r) (heap st2 ! r)"
      by (auto simp: heap_grows_def)
    from finish_extension_include_dirs [OF f r r2]
    have "length (heap st2 ! r @ [resource_filename inst ''bob.extension'' ''include''])
        \<le> length (h' ! r)"
      by (rule prefix_length_le)
    moreover from p have "length (h ! r) \<le> length (heap st2 ! r)" by (rule prefix_length_le)
    ultimately show ?thesis by simp
  qed
qed

subsection \<open>Libraries of the resolved packages\<close>

lemma add_package_libraries:
  "add_package e u s st pkg = Inr st'
   \<Longrightarrow> \<exists>libs. decorate_libraries e pkg = Inr libs \<and> par_libraries st' = par_libraries st @ libs"
  by (auto simp: add_package_def Let_def split: sum.splits)

lemma add_packages_libraries:
  "add_packages e u s st pkgs = Inr st'
   \<Longrightarrow> set (par_libraries st) \<subseteq> set (par_libraries st')
     \<and> (\<forall>pkg \<in> set pkgs. \<exists>libs. decorate_libraries e pkg = Inr libs
            \<and> set libs \<subseteq> set (par_libraries st'))"
proof (induction pkgs arbitrary: st)
  case Nil
  then show ?case by simp
next
  case (Cons pkg pkgs)
  from Cons.prems obtain st1 where 1: "add_package e u s st pkg = Inr st1"
    and 2: "add_packages e u s st1 pkgs = Inr st'"
    by (auto split: sum.splits)
  from add_package_libraries [OF 1] obtain libs where libs: "decorate_libraries e pkg = Inr libs"
    and st1: "par_libraries st1 = par_libraries st @ libs"
    by blast
  from Cons.IH [OF 2] have mono: "set (par_libraries st1) \<subseteq> set (par_libraries st')"
    and rest: "\<forall>pkg \<in> set pkgs. \<exists>libs. decorate_libraries e pkg = Inr libs
            \<and> set libs \<subseteq> set (par_libraries st')"
    by simp_all
  from mono st1 have "set (par_libraries st) \<subseteq> set (par_libraries st')"
    and "set libs \<subseteq> set (par_libraries st')"
    by auto
  with libs rest show ?case by auto
qed

lemma finish_extension_libraries:
  "finish_extension e inst nm kw bob u s st = Inr (x, h')
    \<Longrightarrow> libraries x = uniq (par_libraries st @ opt_list (kw_libraries kw))"
  by (auto simp: finish_extension_def Let_def split: prod.splits sum.splits if_splits)

lemma Extension_init_libraries:
  assumes "Extension_init e inst h nm kw = Inr (x, h')"
  shows "\<exists>reqs resolved.
     normalize_requirements (map (\<lambda>k. str_lower (str_strip k)) (as_list (kw_packages kw))) = Inr reqs
     \<and> check_packages (pkg_config_db inst)
          (snd (extract_boost reqs (as_list (kw_boost_modules kw)))) = Inr resolved
     \<and> (\<forall>pkg \<in> set resolved. \<exists>libs. decorate_libraries e pkg = Inr libs
            \<and> set libs \<subseteq> set (libraries x))"
proof -
  from assms obtain pkgs bob s boost_req pkgs' u st1 resolved st2
    where n: "normalize_requirements (map (\<lambda>k. str_lower (str_strip k)) (as_list (kw_packages kw)))
               = Inr pkgs"
      and x: "extract_boost pkgs (as_list (kw_boost_modules kw)) = (boost_req, pkgs')"
      and c: "check_packages (pkg_config_db inst) pkgs' = Inr resolved"
      and a: "add_packages e u s st1 resolved = Inr st2"
      and f: "finish_extension e inst nm kw bob u s st2 = Inr (x, h')"
    by (rule Extension_init_Inr)
  have "set (par_libraries st2) \<subseteq> set (libraries x)"
    using finish_extension_libraries [OF f] by (simp add: uniq_set)
  with add_packages_libraries [OF a]
  have "\<forall>pkg \<in> set resolved. \<exists>libs. decorate_libraries e pkg = Inr libs
            \<and> set libs \<subseteq> set (libraries x)"
    by blast
  with n x c show ?thesis by auto
qed

lemma add_packages_unsupported:
  assumes "\<exists>p \<in> set pkgs. startswith (name p) ''bob-''"
    and "platform_system e \<noteq> ''Darwin''" and "platform_system e \<noteq> ''Linux''"
  shows "add_packages e u s st pkgs = Inl RuntimeError_unsupported_platform"
  using assms(1)
proof (induction pkgs arbitrary: st)
  case Nil
  then show ?case by simp
next
  case (Cons pkg pkgs)
  show ?case
  proof (cases "startswith (name pkg) ''bob-''")
    case True
    then have "add_package e u s st pkg = Inl RuntimeError_unsupported_platform"
      using assms(2,3) by (simp add: add_package_def Let_def decorate_libraries_cases)
    then show ?thesis by simp
  next
    case False
    then obtain st' where st': "add_package e u s st pkg = Inr st'"
      by (simp add: add_package_def Let_def decorate_libraries_cases)
    from Cons.prems False have "\<exists>p \<in> set pkgs. startswith (name p) ''bob-''"
      by auto
    from Cons.IH [OF this] st' show ?thesis by simp
  qed
qed

lemma Extension_init_unsupported:
  assumes "normalize_requirements (map (\<lambda>k. str_lower (str_strip k)) (as_list (kw_packages kw)))
             = Inr reqs"
    and "get_bob_libraries e inst (kw_bob_packages kw) = Inr bob"
    and "generate_self_macros e nm (kw_version kw) = Inr ms"
    and "ref_or_new (kw_system_include_dirs kw) h = (sys, h1)"
    and "ref_or_new (kw_include_dirs kw) h1 = (usr, h2)"
    and "resolve_boost inst (fst (extract_boost reqs (as_list (kw_boost_modules kw))))
           (as_list (kw_boost_modules kw)) usr sys (init_assembly e h2 ms (fst (snd bob))) = Inr st1"
    and "check_packages (pkg_config_db inst)
           (snd (extract_boost reqs (as_list (kw_boost_modules kw)))) = Inr resolved"
    and "\<exists>p \<in> set resolved. startswith (name p) ''bob-''"
    and "platform_system e \<noteq> ''Darwin''" and "platform_system e \<noteq> ''Linux''"
  shows "Extension_init e inst h nm kw = Inl RuntimeError_unsupported_platform"
proof -
  obtain bi bl bd where bob: "bob = (bi, bl, bd)"
    by (cases bob) auto
  have a: "add_packages e usr sys st1 resolved = Inl RuntimeError_unsupported_platform"
    by (rule add_packages_unsupported [OF assms(8,9,10)])
  show ?thesis
    using assms(1-7) a
    by (auto simp: Extension_init_def Let_def bob split: prod.splits)
qed


section \<open>The claims\<close>

subsection \<open>Requirements with \<^verbatim>\<open>==\<close>\<close>

text \<open>
  Claim C1 says that a requirement \<^verbatim>\<open>name == version\<close> succeeds exactly when the
  resolved version equals the requested one. The branch for \<^verbatim>\<open>==\<close> (line 69) asserts
  \<^verbatim>\<open>p <= splitreq[2]\<close>, although its message reads "version is not ==". So the
  requirement \<open>nm == v\<close> succeeds exactly when the package is found and its version is
  at most \<open>v\<close>. With \<^verbatim>\<open>blitz\<close> installed in version 0.10, the requirement
  \<^verbatim>\<open>blitz == 2.0\<close> is accepted and the package is returned, while the two versions are
  not equal.
\<close>

theorem check_packages_equality_is_le:
  "(canonical_name nm \<and> canonical_constraint (''=='', v) \<longrightarrow>
      check_packages db [nm @ '' == '' @ v] =
        (case db nm of
           None \<Rightarrow> Inl PackageNotFound
         | Some p \<Rightarrow> if pkg_le (p\<lparr>name := nm\<rparr>) v then Inr [p\<lparr>name := nm\<rparr>]
                     else Inl AssertionError))
   \<and> check_packages example_db [''blitz == 2.0'']
       = Inr [\<lparr>name = ''blitz'', version = ''0.10'', package_macros = [(''HAVE_X'', ''1'')],
               include_directories = [''/usr/include/x'', ''/usr/include''],
               library_directories = [''/usr/lib''], pc_libraries = [''blitz'']\<rparr>]
   \<and> pkg_eq \<lparr>name = ''blitz'', version = ''0.10'', package_macros = [(''HAVE_X'', ''1'')],
               include_directories = [''/usr/include/x'', ''/usr/include''],
               library_directories = [''/usr/lib''], pc_libraries = [''blitz'']\<rparr> ''2.0'' = False"
proof -
  have "check_packages example_db [''blitz == 2.0'']
       = Inr [\<lparr>name = ''blitz'', version = ''0.10'', package_macros = [(''HAVE_X'', ''1'')],
               include_directories = [''/usr/include/x'', ''/usr/include''],
               library_directories = [''/usr/lib''], pc_libraries = [''blitz'']\<rparr>]"
    by code_simp
  moreover have "pkg_eq \<lparr>name = ''blitz'', version = ''0.10'', package_macros = [(''HAVE_X'', ''1'')],
               include_directories = [''/usr/include/x'', ''/usr/include''],
               library_directories = [''/usr/lib''], pc_libraries = [''blitz'']\<rparr> ''2.0'' = False"
    by code_simp
  ultimately show ?thesis
    using check_packages_equality [of nm v db] by blast
qed

theorem check_packages_equality_is_le_witness:
  "check_packages example_db [''bob-core == 1.5'']
     = Inr [(example_package ''1.0'' [''bob_core''])\<lparr>name := ''bob-core''\<rparr>]
   \<and> check_packages example_db [''bob-core == 0.9''] = Inl AssertionError"
proof -
  have nm: "canonical_name ''bob-core''"
    by (simp add: canonical_name_def is_cmp_def is_space_def)
  have v1: "canonical_constraint (''=='', ''1.5'')" and v2: "canonical_constraint (''=='', ''0.9'')"
    by (simp_all add: canonical_constraint_def is_cmp_def is_space_def)
  have le1: "pkg_le ((example_package ''1.0'' [''bob_core''])\<lparr>name := ''bob-core''\<rparr>) ''1.5''"
    by code_simp
  have le2: "\<not> pkg_le ((example_package ''1.0'' [''bob_core''])\<lparr>name := ''bob-core''\<rparr>) ''0.9''"
    by code_simp
  have db: "example_db ''bob-core'' = Some (example_package ''1.0'' [''bob_core''])"
    by (simp add: example_db_def)
  show ?thesis
    using check_packages_equality_is_le [of "''bob-core''" "''1.5''" example_db]
      check_packages_equality_is_le [of "''bob-core''" "''0.9''" example_db]
      nm v1 v2 le1 le2 db
    by simp
qed

subsection \<open>A package requested twice\<close>

text \<open>
  Claim C2, for entries that are the same string: \<^verbatim>\<open>uniq\<close> merges them before the
  loop, so the package is resolved once and nothing is raised.
\<close>

theorem check_packages_identical_counterexample:
  "check_packages example_db [''blitz'', ''blitz'']
     = Inr [\<lparr>name = ''blitz'', version = ''0.10'', package_macros = [(''HAVE_X'', ''1'')],
             include_directories = [''/usr/include/x'', ''/usr/include''],
             library_directories = [''/usr/lib''], pc_libraries = [''blitz'']\<rparr>]"
  by code_simp

text \<open>
  Claim C2, amended. Entries that are the same string are merged before the loop: the
  call does what the call on its distinct strings, in the order of their first
  occurrence, does. When every entry, taken alone, parses, resolves and satisfies its
  comparator, and different strings name different packages, the call returns one
  resolved package for each distinct string, in that order.

  At an entry of the merged list before which every entry passes alone, under pairwise
  different names, the entry is first parsed, resolved and compared. When this fails,
  the call raises the error of the entry itself, also when the entry names a package
  that an entry before it has named. Only when the entry passes and names such a
  package does the call raise the error for a package that "had already been
  requested".

  Hence, when two entries of one call differ as strings and name the same package, the
  call fails; and when moreover every entry passes alone, it fails with the error for a
  package that "had already been requested".
\<close>

theorem check_packages_duplicate:
  "check_packages db packages = check_packages db (uniq packages)
   \<and> ((\<forall>q \<in> set packages. \<exists>p. check_requirement db q = Inr p)
        \<and> inj_on (\<lambda>q. split_requirement q ! 0) (set packages)
      \<longrightarrow> check_packages db packages
            = Inr (map (\<lambda>q. projr (check_requirement db q)) (uniq packages)))
   \<and> (uniq packages = pre @ r # post
        \<and> (\<forall>q \<in> set pre. \<exists>p. check_requirement db q = Inr p)
        \<and> distinct (map (\<lambda>q. split_requirement q ! 0) pre)
      \<longrightarrow> (case check_requirement db r of
             Inl err \<Rightarrow> check_packages db packages = Inl err
           | Inr p \<Rightarrow>
               (split_requirement r ! 0 \<in> (\<lambda>q. split_requirement q ! 0) ` set pre
                \<longrightarrow> check_packages db packages = Inl RuntimeError_already_requested)))
   \<and> (r1 \<in> set packages \<and> r2 \<in> set packages \<and> r1 \<noteq> r2
        \<and> split_requirement r1 ! 0 = split_requirement r2 ! 0
      \<longrightarrow> (\<exists>err. check_packages db packages = Inl err)
          \<and> ((\<forall>q \<in> set packages. \<exists>p. check_requirement db q = Inr p)
               \<longrightarrow> check_packages db packages = Inl RuntimeError_already_requested))"
proof -
  let ?nm = "\<lambda>q. split_requirement q ! 0"
  have merged: "check_packages db packages = check_packages db (uniq packages)"
    by (simp add: check_packages_def uniq_idem)
  have all_ok: "check_packages db packages
            = Inr (map (\<lambda>q. projr (check_requirement db q)) (uniq packages))"
    if ok: "\<forall>q \<in> set packages. \<exists>p. check_requirement db q = Inr p"
      and inj: "inj_on ?nm (set packages)"
  proof -
    have d: "distinct (map ?nm (uniq packages))"
      using inj by (simp add: distinct_map uniq_distinct uniq_set)
    have o: "\<forall>q \<in> set (uniq packages). \<exists>p. check_requirement db q = Inr p"
      using ok by (simp add: uniq_set)
    show ?thesis
      using check_packages_loop_prefix [of "uniq packages" db "{}" "[]" "[]", OF o d]
      by (simp add: check_packages_def)
  qed
  have first_bad: "(case check_requirement db r of
             Inl err \<Rightarrow> check_packages db packages = Inl err
           | Inr p \<Rightarrow>
               (?nm r \<in> ?nm ` set pre
                \<longrightarrow> check_packages db packages = Inl RuntimeError_already_requested))"
    if u: "uniq packages = pre @ r # post"
      and ok: "\<forall>q \<in> set pre. \<exists>p. check_requirement db q = Inr p"
      and d: "distinct (map ?nm pre)"
  proof -
    have step: "check_packages db packages
        = check_packages_loop db (?nm ` set pre)
            (map (\<lambda>q. projr (check_requirement db q)) pre) (r # post)"
      using check_packages_loop_prefix [of pre db "{}" "[]" "r # post", OF ok d]
      by (simp add: check_packages_def u)
    show ?thesis
    proof (cases "check_requirement db r")
      case (Inl err)
      then show ?thesis using step by simp
    next
      case (Inr p)
      have "name p = ?nm r"
        by (rule check_requirement_name [OF Inr])
      then show ?thesis using step Inr by simp
    qed
  qed
  have dup: "(\<exists>err. check_packages db packages = Inl err)
          \<and> ((\<forall>q \<in> set packages. \<exists>p. check_requirement db q = Inr p)
               \<longrightarrow> check_packages db packages = Inl RuntimeError_already_requested)"
    if r1: "r1 \<in> set packages" and r2: "r2 \<in> set packages" and ne: "r1 \<noteq> r2"
      and same: "?nm r1 = ?nm r2"
  proof -
    have nd: "\<not> distinct (map ?nm (uniq packages))"
    proof
      assume "distinct (map ?nm (uniq packages))"
      then have "inj_on ?nm (set (uniq packages))"
        by (simp add: distinct_map)
      with r1 r2 ne same show False
        by (auto simp: uniq_set inj_on_def)
    qed
    have first: "\<exists>err. check_packages db packages = Inl err"
    proof (cases "check_packages db packages")
      case (Inl err)
      then show ?thesis by blast
    next
      case (Inr res)
      then show ?thesis
        using check_packages_loop_Inr [of db "{}" "[]" "uniq packages" res] nd
        by (simp add: check_packages_def)
    qed
    have second: "check_packages db packages = Inl RuntimeError_already_requested"
      if "\<forall>q \<in> set packages. \<exists>p. check_requirement db q = Inr p"
    proof -
      from that have "\<forall>r \<in> set (uniq packages). \<exists>p. check_requirement db r = Inr p"
        by (simp add: uniq_set)
      then show ?thesis
        unfolding check_packages_def using nd by (intro check_packages_loop_dup) simp_all
    qed
    from first second show ?thesis by blast
  qed
  from merged all_ok first_bad dup show ?thesis by blast
qed

theorem check_packages_duplicate_witness:
  "check_packages example_db [''blitz > 0.5'', ''blitz > 5.0''] = Inl AssertionError
   \<and> check_packages example_db [''blitz > 0.5'', ''blitz > 0.7'']
       = Inl RuntimeError_already_requested
   \<and> check_packages example_db [''blitz > 0.5'', ''blitz > 0.5'', ''bob-core'', ''blitz > 0.5'']
       = Inr [(example_package ''0.10'' [''blitz''])\<lparr>name := ''blitz''\<rparr>,
              (example_package ''1.0'' [''bob_core''])\<lparr>name := ''bob-core''\<rparr>]"
proof -
  have a: "check_requirement example_db ''blitz > 0.5''
      = Inr ((example_package ''0.10'' [''blitz''])\<lparr>name := ''blitz''\<rparr>)"
    by code_simp
  have b: "check_requirement example_db ''blitz > 0.7''
      = Inr ((example_package ''0.10'' [''blitz''])\<lparr>name := ''blitz''\<rparr>)"
    by code_simp
  have c: "check_requirement example_db ''blitz > 5.0'' = Inl AssertionError"
    by code_simp
  have d: "check_requirement example_db ''bob-core''
      = Inr ((example_package ''1.0'' [''bob_core''])\<lparr>name := ''bob-core''\<rparr>)"
    by code_simp
  have na: "split_requirement ''blitz > 0.5'' ! 0 = ''blitz''"
    by code_simp
  have nb: "split_requirement ''blitz > 0.7'' ! 0 = ''blitz''"
    by code_simp
  have nc: "split_requirement ''blitz > 5.0'' ! 0 = ''blitz''"
    by code_simp
  have nd: "split_requirement ''bob-core'' ! 0 = ''bob-core''"
    by code_simp
  have u1: "uniq [''blitz > 0.5'', ''blitz > 5.0''] = [''blitz > 0.5''] @ ''blitz > 5.0'' # []"
    by code_simp
  have u2: "uniq [''blitz > 0.5'', ''blitz > 0.7''] = [''blitz > 0.5''] @ ''blitz > 0.7'' # []"
    by code_simp
  have u3: "uniq [''blitz > 0.5'', ''blitz > 0.5'', ''bob-core'', ''blitz > 0.5'']
      = [''blitz > 0.5'', ''bob-core'']"
    by code_simp
  have 1: "check_packages example_db [''blitz > 0.5'', ''blitz > 5.0''] = Inl AssertionError"
    using check_packages_duplicate [of example_db "[''blitz > 0.5'', ''blitz > 5.0'']"
        "[''blitz > 0.5'']" "''blitz > 5.0''" "[]"] u1 a c
    by simp
  have 2: "check_packages example_db [''blitz > 0.5'', ''blitz > 0.7'']
       = Inl RuntimeError_already_requested"
    using check_packages_duplicate [of example_db "[''blitz > 0.5'', ''blitz > 0.7'']"
        "[''blitz > 0.5'']" "''blitz > 0.7''" "[]"] u2 a b na nb
    by simp
  have 3: "check_packages example_db [''blitz > 0.5'', ''blitz > 0.5'', ''bob-core'', ''blitz > 0.5'']
       = Inr [(example_package ''0.10'' [''blitz''])\<lparr>name := ''blitz''\<rparr>,
              (example_package ''1.0'' [''bob_core''])\<lparr>name := ''bob-core''\<rparr>]"
  proof -
    have ok: "\<forall>q \<in> set [''blitz > 0.5'', ''blitz > 0.5'', ''bob-core'', ''blitz > 0.5''].
        \<exists>p. check_requirement example_db q = Inr p"
      using a d by simp
    have inj: "inj_on (\<lambda>q. split_requirement q ! 0)
        (set [''blitz > 0.5'', ''blitz > 0.5'', ''bob-core'', ''blitz > 0.5''])"
      using na nd by (auto simp: inj_on_def)
    from check_packages_duplicate
        [of example_db "[''blitz > 0.5'', ''blitz > 0.5'', ''bob-core'', ''blitz > 0.5'']"]
      ok inj
    have "check_packages example_db [''blitz > 0.5'', ''blitz > 0.5'', ''bob-core'', ''blitz > 0.5'']
        = Inr (map (\<lambda>q. projr (check_requirement example_db q))
            (uniq [''blitz > 0.5'', ''blitz > 0.5'', ''bob-core'', ''blitz > 0.5'']))"
      by blast
    then show ?thesis
      by (simp add: u3 a d)
  qed
  from 1 2 3 show ?thesis by simp
qed

subsection \<open>Reordering the system includes\<close>

text \<open>
  Claim C3, for an argument list that ends on \<^verbatim>\<open>-isystem\<close>: \<^verbatim>\<open>args[i+1]\<close> is out of
  range and the function raises \<^verbatim>\<open>IndexError\<close>.
\<close>

theorem reorganize_isystem_dangling_counterexample:
  "reorganize_isystem [''-O2'', ''-isystem''] = Inl IndexError"
  by code_simp

text \<open>
  Claim C3, amended. For every argument list in which each \<^verbatim>\<open>-isystem\<close>, read from
  the left, is followed by an argument, \<^verbatim>\<open>reorganize_isystem\<close> returns the other
  arguments in their order, followed by one \<^verbatim>\<open>-isystem\<close> pair for each distinct path.
  The paths are those of the input with only the last occurrence of each kept, sorted:
  a longer path stands before a shorter one, and of two paths of the same length the
  lexically smaller stands first. A list that ends on a dangling \<^verbatim>\<open>-isystem\<close> raises
  \<^verbatim>\<open>IndexError\<close>. For the system includes \<^verbatim>\<open>/usr/include\<close>, \<^verbatim>\<open>/usr/local/include\<close>,
  \<^verbatim>\<open>/opt/foo/include/special\<close> the longest path comes first and \<^verbatim>\<open>/usr/include\<close> last.
\<close>

theorem reorganize_isystem_spec:
  "(\<not> isystem_dangling args \<longrightarrow>
      (\<exists>incs. reorganize_isystem args
                = Inr (isystem_others args @ concat (map (\<lambda>k. [''-isystem'', k]) incs))
         \<and> incs = sort_key isystem_key (remdups (isystem_paths args))
         \<and> distinct incs \<and> set incs = set (isystem_paths args)
         \<and> sorted_wrt (\<lambda>a b. length b < length a \<or> (length a = length b \<and> a < b)) incs))
   \<and> (isystem_dangling args \<longrightarrow> reorganize_isystem args = Inl IndexError)
   \<and> reorganize_isystem
        [''-isystem'', ''/usr/include'', ''-isystem'', ''/usr/local/include'',
         ''-isystem'', ''/opt/foo/include/special'']
      = Inr [''-isystem'', ''/opt/foo/include/special'', ''-isystem'', ''/usr/local/include'',
             ''-isystem'', ''/usr/include'']"
proof -
  have "distinct (sort_key isystem_key (remdups (isystem_paths args)))"
    by simp
  moreover have "set (sort_key isystem_key (remdups (isystem_paths args))) = set (isystem_paths args)"
    by simp
  moreover have "sorted_wrt (\<lambda>a b. length b < length a \<or> (length a = length b \<and> a < b))
      (sort_key isystem_key (remdups (isystem_paths args)))"
    by (rule sort_isystem_sorted) simp
  moreover have "reorganize_isystem
        [''-isystem'', ''/usr/include'', ''-isystem'', ''/usr/local/include'',
         ''-isystem'', ''/opt/foo/include/special'']
      = Inr [''-isystem'', ''/opt/foo/include/special'', ''-isystem'', ''/usr/local/include'',
             ''-isystem'', ''/usr/include'']"
    by code_simp
  ultimately show ?thesis
    by (simp add: reorganize_isystem_eq)
qed

theorem reorganize_isystem_spec_witness:
  "reorganize_isystem [''-O2'', ''-isystem'', ''/usr/include'', ''-isystem'', ''/opt/include'',
       ''-Wall'', ''-isystem'', ''/usr/include'']
     = Inr [''-O2'', ''-Wall'', ''-isystem'', ''/opt/include'', ''-isystem'', ''/usr/include'']
   \<and> reorganize_isystem [''-isystem'', ''/usr/include'', ''-isystem''] = Inl IndexError"
proof -
  have 1: "\<not> isystem_dangling [''-O2'', ''-isystem'', ''/usr/include'', ''-isystem'', ''/opt/include'',
       ''-Wall'', ''-isystem'', ''/usr/include'']"
    by simp
  have 2: "isystem_dangling [''-isystem'', ''/usr/include'', ''-isystem'']"
    by simp
  have 3: "sort_key isystem_key (remdups [''/usr/include'', ''/opt/include'', ''/usr/include''])
      = [''/opt/include'', ''/usr/include'']"
    by code_simp
  show ?thesis
    using reorganize_isystem_spec [of "[''-O2'', ''-isystem'', ''/usr/include'', ''-isystem'',
       ''/opt/include'', ''-Wall'', ''-isystem'', ''/usr/include'']"]
      reorganize_isystem_spec [of "[''-isystem'', ''/usr/include'', ''-isystem'']"] 1 2 3
    by simp
qed

subsection \<open>The self-identifying macros\<close>

text \<open>
  Claim C4, for a target without a version: \<^verbatim>\<open>generate_self_macros\<close> returns the empty
  list at once (lines 84-85), and the extension has no prefix, name or entry macro.
\<close>

theorem generate_self_macros_no_version_counterexample:
  "generate_self_macros example_env ''bob.core._lib'' None = Inr []
   \<and> map_sum id (\<lambda>r. define_macros (fst r))
         (Extension_init example_env example_installed [] ''bob.core._lib'' no_kwargs) = Inr []"
  by code_simp

text \<open>
  Claim C4, amended. Without a version (\<^verbatim>\<open>None\<close>) no self-identifying macro is
  generated. With a version, and a qualified name \<open>pre.nm\<close> whose part \<open>nm\<close> behind
  the last dot has no dot, the macros are the module prefix \<open>"pre"\<close>, the module name
  \<open>"nm"\<close>, the entry point (\<^verbatim>\<open>PyInit_nm\<close> from Python 3 on, \<^verbatim>\<open>initnm\<close> before), and
  the version macro exactly when the version string is not empty. Whenever the
  constructor returns, the macros generated for its name and version are among the
  \<^verbatim>\<open>define_macros\<close> of the extension.
\<close>

theorem generate_self_macros_injected:
  "generate_self_macros e extname None = Inr []
   \<and> (CHR ''.'' \<notin> set nm \<longrightarrow>
        generate_self_macros e (pre @ ''.'' @ nm) (Some v) =
          Inr ([(''BOB_EXT_MODULE_PREFIX'', quoted pre), (''BOB_EXT_MODULE_NAME'', quoted nm),
                (''BOB_EXT_ENTRY_NAME'',
                   (if python_major e \<ge> 3 then ''PyInit_'' else ''init'') @ nm)]
               @ (if v \<noteq> [] then [(''BOB_EXT_MODULE_VERSION'', quoted v)] else [])))
   \<and> (Extension_init e inst h extname kw = Inr (x, h') \<longrightarrow>
        (\<exists>ms. generate_self_macros e extname (kw_version kw) = Inr ms
           \<and> set ms \<subseteq> set (define_macros x)))"
  using generate_self_macros_None generate_self_macros_versioned Extension_init_self_macros
  by blast

theorem generate_self_macros_injected_witness:
  "generate_self_macros example_env ''bob.core._lib'' (Some ''2.0'')
     = Inr [(''BOB_EXT_MODULE_PREFIX'', quoted ''bob.core''),
            (''BOB_EXT_MODULE_NAME'', quoted ''_lib''),
            (''BOB_EXT_ENTRY_NAME'', ''PyInit__lib''),
            (''BOB_EXT_MODULE_VERSION'', quoted ''2.0'')]
   \<and> (''BOB_EXT_MODULE_NAME'', quoted ''_lib'')
       \<in> set (define_macros (example_extension\<lparr>define_macros :=
             [(''BOB_EXT_MODULE_PREFIX'', quoted ''bob.core''),
              (''BOB_EXT_MODULE_NAME'', quoted ''_lib''),
              (''BOB_EXT_ENTRY_NAME'', ''PyInit__lib''),
              (''BOB_EXT_MODULE_VERSION'', quoted ''2.0'')]\<rparr>))"
proof -
  have dot: "CHR ''.'' \<notin> set ''_lib''" by simp
  have ev: "Extension_init example_env example_installed [] ''bob.core._lib''
        (no_kwargs\<lparr>kw_version := Some ''2.0''\<rparr>)
      = Inr (example_extension\<lparr>define_macros :=
             [(''BOB_EXT_MODULE_PREFIX'', quoted ''bob.core''),
              (''BOB_EXT_MODULE_NAME'', quoted ''_lib''),
              (''BOB_EXT_ENTRY_NAME'', ''PyInit__lib''),
              (''BOB_EXT_MODULE_VERSION'', quoted ''2.0'')]\<rparr>,
             [[], [], [''/site/bob.extension/include''], []])"
    by code_simp
  have v: "kw_version (no_kwargs\<lparr>kw_version := Some ''2.0''\<rparr>) = Some ''2.0''" by simp
  have py: "python_major example_env = 3" by (simp add: example_env_def)
  show ?thesis
    using generate_self_macros_injected [of example_env "''bob.core._lib''" "''_lib''"
        "''bob.core''" "''2.0''" example_installed "[]"
        "no_kwargs\<lparr>kw_version := Some ''2.0''\<rparr>" _ "[[], [], [''/site/bob.extension/include''], []]"]
      dot ev v py
    by auto
qed

subsection \<open>Taking the Boost requirement out of the list\<close>

text \<open>
  Claim C5 says that every entry whose name starts with \<^verbatim>\<open>boost\<close> is removed from the
  remaining requirements. The loop deletes from the list it iterates over, so the entry
  behind a deleted one is never visited: whatever stands right behind the first entry
  that starts with \<^verbatim>\<open>boost\<close> is still in the list afterwards. The packages \<^verbatim>\<open>Boost>=1.40\<close> and
  \<^verbatim>\<open>boost < 2.0\<close> normalize to two adjacent entries; the first is taken as the Boost
  requirement, the second stays in the list and is looked up like any other package,
  which fails where Boost is not registered.
\<close>

theorem extract_boost_skips_neighbour:
  "((\<forall>p \<in> set xs. \<not> startswith p ''boost'') \<and> startswith b ''boost'' \<longrightarrow>
      take (Suc (length xs)) (snd (extract_boost (xs @ b # c # ys) boost_modules)) = xs @ [c])
   \<and> normalize_requirements (map (\<lambda>k. str_lower (str_strip k)) [''Boost>=1.40'', ''boost < 2.0 ''])
       = Inr [''boost >= 1.40'', ''boost < 2.0'']
   \<and> extract_boost [''boost >= 1.40'', ''boost < 2.0''] [] = (''boost >= 1.40'', [''boost < 2.0''])
   \<and> Extension_init example_env example_installed [] ''bob.core._lib''
        (no_kwargs\<lparr>kw_packages := Some (PyList [''Boost>=1.40'', ''boost < 2.0 ''])\<rparr>)
      = Inl PackageNotFound"
proof -
  have "normalize_requirements (map (\<lambda>k. str_lower (str_strip k)) [''Boost>=1.40'', ''boost < 2.0 ''])
       = Inr [''boost >= 1.40'', ''boost < 2.0'']
   \<and> extract_boost [''boost >= 1.40'', ''boost < 2.0''] [] = (''boost >= 1.40'', [''boost < 2.0''])
   \<and> Extension_init example_env example_installed [] ''bob.core._lib''
        (no_kwargs\<lparr>kw_packages := Some (PyList [''Boost>=1.40'', ''boost < 2.0 ''])\<rparr>)
      = Inl PackageNotFound"
    by code_simp
  then show ?thesis
    using extract_boost_keeps_neighbour [of xs b c ys boost_modules] by blast
qed

theorem extract_boost_skips_neighbour_witness:
  "take 2 (snd (extract_boost [''blitz'', ''boost >= 1.40'', ''boost-python'', ''opencv''] []))
     = [''blitz'', ''boost-python'']"
proof -
  have 1: "\<forall>p \<in> set [''blitz'']. \<not> startswith p ''boost''" by (simp add: startswith_def)
  have 2: "startswith ''boost >= 1.40'' ''boost''" by (simp add: startswith_def)
  show ?thesis
    using extract_boost_skips_neighbour [of "[''blitz'']" "''boost >= 1.40''" "''boost-python''"
        "[''opencv'']" "[]"] 1 2
    by (simp add: numeral_2_eq_2)
qed

subsection \<open>Normalizing twice\<close>

text \<open>
  Claim C6. For every sequence \<open>R\<close> of requirement strings that each split into one or
  three parts, \<^verbatim>\<open>normalize_requirements\<close> returns a list \<open>L\<close>, and normalizing \<open>L\<close>
  returns \<open>L\<close> again.
\<close>

theorem normalize_requirements_idempotent:
  assumes "\<forall>r \<in> set R. length (split_requirement r) = 1 \<or> length (split_requirement r) = 3"
  shows "\<exists>L. normalize_requirements R = Inr L \<and> normalize_requirements L = Inr L"
  using assms normalize_requirements_total [of R] normalize_requirements_fixed by blast

theorem normalize_requirements_idempotent_witness:
  "normalize_requirements [''a > 1'', ''a > 2'', ''b'', ''c == 4'']
     = Inr [''a > 1'', ''a > 2'', ''b'', ''c == 4'']"
proof -
  have wf: "\<forall>r \<in> set [''a > 1'', ''b'', ''a>2'', ''a  >  1'', ''c  ==4''].
      length (split_requirement r) = 1 \<or> length (split_requirement r) = 3"
    by code_simp
  have ev: "normalize_requirements [''a > 1'', ''b'', ''a>2'', ''a  >  1'', ''c  ==4'']
      = Inr [''a > 1'', ''a > 2'', ''b'', ''c == 4'']"
    by code_simp
  from normalize_requirements_idempotent [OF wf] ev show ?thesis by simp
qed

subsection \<open>Search order of the filesystem probe\<close>

text \<open>
  Claim C7. The prefixes searched by \<^verbatim>\<open>find_file\<close> are, in this order, the entries of
  \<^verbatim>\<open>BOB_PREFIX_PATH\<close> split on the path separator, the caller's prefixes, and the
  defaults \<^verbatim>\<open>/usr\<close>, \<^verbatim>\<open>/usr/local\<close>, \<^verbatim>\<open>/opt/local\<close>. The list has no duplicates,
  holds exactly the entries of the three sources, and keeps each entry at the place of
  its first occurrence: what stands before an entry \<open>x\<close> in the result is the
  deduplication of what stands before the first \<open>x\<close> in the concatenation. With
  \<^verbatim>\<open>BOB_PREFIX_PATH=/a:/b\<close> and the prefix \<^verbatim>\<open>/c\<close> the list is
  \<^verbatim>\<open>[/a, /b, /c, /usr, /usr/local, /opt/local]\<close>.
\<close>

theorem find_file_search_order:
  "(let from_env = (case BOB_PREFIX_PATH e of None \<Rightarrow> [] | Some v \<Rightarrow> str_split (pathsep e) v);
        from_caller = (case prfxs of None \<Rightarrow> [] | Some ps \<Rightarrow> ps);
        priority = from_env @ from_caller @ [''/usr'', ''/usr/local'', ''/opt/local'']
    in distinct (find_file_search e prfxs)
     \<and> set (find_file_search e prfxs) = set priority
     \<and> takeWhile (\<lambda>y. y \<noteq> x) (find_file_search e prfxs)
           = uniq (takeWhile (\<lambda>y. y \<noteq> x) priority))
   \<and> find_file_search
        (e0\<lparr>BOB_PREFIX_PATH := Some ''/a:/b'', pathsep := CHR '':''\<rparr>)
        (Some [''/c''])
      = [''/a'', ''/b'', ''/c'', ''/usr'', ''/usr/local'', ''/opt/local'']"
proof -
  define priority where "priority =
    (case BOB_PREFIX_PATH e of None \<Rightarrow> [] | Some v \<Rightarrow> str_split (pathsep e) v)
    @ (case prfxs of None \<Rightarrow> [] | Some ps \<Rightarrow> ps) @ [''/usr'', ''/usr/local'', ''/opt/local'']"
  have eq: "find_file_search e prfxs = uniq priority"
    by (cases "BOB_PREFIX_PATH e"; cases prfxs)
       (simp_all add: find_file_search_def priority_def DEFAULT_PREFIXES_def Let_def)
  have general: "distinct (find_file_search e prfxs)
     \<and> set (find_file_search e prfxs) = set priority
     \<and> takeWhile (\<lambda>y. y \<noteq> x) (find_file_search e prfxs)
           = uniq (takeWhile (\<lambda>y. y \<noteq> x) priority)"
    by (simp add: eq uniq_distinct uniq_set uniq_takeWhile)
  have example: "find_file_search
        (e0\<lparr>BOB_PREFIX_PATH := Some ''/a:/b'', pathsep := CHR '':''\<rparr>)
        (Some [''/c''])
      = [''/a'', ''/b'', ''/c'', ''/usr'', ''/usr/local'', ''/opt/local'']"
    by (simp add: find_file_search_def DEFAULT_PREFIXES_def uniq_def)
  show ?thesis
    using general example unfolding priority_def Let_def by blast
qed

theorem find_file_search_order_witness:
  "distinct (find_file_search
      \<lparr>BOB_PREFIX_PATH = Some ''/a:/usr:/a'', pathsep = CHR '':'', glob = (\<lambda>p. [p]),
         path_exists = (\<lambda>p. True), platform_system = ''Linux'', sys_platform = ''linux'',
         platform_architecture = ''64bit'', python_major = 3\<rparr> (Some [''/c'', ''/a'']))
   \<and> takeWhile (\<lambda>y. y \<noteq> ''/c'') (find_file_search
      \<lparr>BOB_PREFIX_PATH = Some ''/a:/usr:/a'', pathsep = CHR '':'', glob = (\<lambda>p. [p]),
         path_exists = (\<lambda>p. True), platform_system = ''Linux'', sys_platform = ''linux'',
         platform_architecture = ''64bit'', python_major = 3\<rparr> (Some [''/c'', ''/a'']))
       = [''/a'', ''/usr'']"
  using find_file_search_order [of
      "\<lparr>BOB_PREFIX_PATH = Some ''/a:/usr:/a'', pathsep = CHR '':'', glob = (\<lambda>p. [p]),
         path_exists = (\<lambda>p. True), platform_system = ''Linux'', sys_platform = ''linux'',
         platform_architecture = ''64bit'', python_major = 3\<rparr>" "Some [''/c'', ''/a'']" "''/c''"]
  by (simp add: Let_def uniq_def)

subsection \<open>Library names of sibling packages\<close>

text \<open>
  Claim C8. For a resolved package whose name starts with \<^verbatim>\<open>bob-\<close>, every library
  name \<open>k\<close> becomes \<open>k.version\<close> on Darwin and \<open>:libk.so.version\<close> on Linux, and on
  any other platform the step raises the error for an unsupported platform. The
  libraries of any other package are taken as they are, on every platform. The names
  so obtained are what the step appends to the libraries of the extension, and the
  error is the error of the step. Whenever the constructor returns, the names obtained
  for every resolved package are among the \<^verbatim>\<open>libraries\<close> of the extension; so it
  does not return when a resolved package of the family meets another platform. On
  such a platform the loop over resolved packages, one of which is of the family,
  raises the error for an unsupported platform, and this is the error of the
  constructor when nothing before the loop has raised.
\<close>

theorem sibling_library_decoration:
  "decorate_libraries e pkg =
     (if startswith (name pkg) ''bob-''
      then (if platform_system e = ''Darwin''
            then Inr (map (\<lambda>k. k @ ''.'' @ version pkg) (pc_libraries pkg))
            else if platform_system e = ''Linux''
            then Inr (map (\<lambda>k. '':lib'' @ k @ ''.so.'' @ version pkg) (pc_libraries pkg))
            else Inl RuntimeError_unsupported_platform)
      else Inr (pc_libraries pkg))
   \<and> map_sum id par_libraries (add_package e u s st pkg)
       = map_sum id (\<lambda>libs. par_libraries st @ libs) (decorate_libraries e pkg)
   \<and> map_sum id pkg_libraries (add_package e u s st pkg)
       = map_sum id (\<lambda>libs. pkg_libraries st @ libs) (decorate_libraries e pkg)
   \<and> (Extension_init e inst h nm kw = Inr (x, h') \<longrightarrow>
        (\<exists>reqs resolved.
           normalize_requirements (map (\<lambda>k. str_lower (str_strip k)) (as_list (kw_packages kw)))
             = Inr reqs
           \<and> check_packages (pkg_config_db inst)
                (snd (extract_boost reqs (as_list (kw_boost_modules kw)))) = Inr resolved
           \<and> (\<forall>p \<in> set resolved. \<exists>libs. decorate_libraries e p = Inr libs
                  \<and> set libs \<subseteq> set (libraries x))))
   \<and> ((\<exists>p \<in> set pkgs. startswith (name p) ''bob-'')
        \<and> platform_system e \<noteq> ''Darwin'' \<and> platform_system e \<noteq> ''Linux''
      \<longrightarrow> add_packages e u s st pkgs = Inl RuntimeError_unsupported_platform)
   \<and> (normalize_requirements (map (\<lambda>k. str_lower (str_strip k)) (as_list (kw_packages kw)))
          = Inr rs
        \<and> get_bob_libraries e inst (kw_bob_packages kw) = Inr bob
        \<and> generate_self_macros e nm (kw_version kw) = Inr ms
        \<and> ref_or_new (kw_system_include_dirs kw) h = (sys, h1)
        \<and> ref_or_new (kw_include_dirs kw) h1 = (usr, h2)
        \<and> resolve_boost inst (fst (extract_boost rs (as_list (kw_boost_modules kw))))
              (as_list (kw_boost_modules kw)) usr sys (init_assembly e h2 ms (fst (snd bob)))
            = Inr st1
        \<and> check_packages (pkg_config_db inst)
              (snd (extract_boost rs (as_list (kw_boost_modules kw)))) = Inr res
        \<and> (\<exists>p \<in> set res. startswith (name p) ''bob-'')
        \<and> platform_system e \<noteq> ''Darwin'' \<and> platform_system e \<noteq> ''Linux''
      \<longrightarrow> Extension_init e inst h nm kw = Inl RuntimeError_unsupported_platform)"
proof -
  have step: "decorate_libraries e pkg =
     (if startswith (name pkg) ''bob-''
      then (if platform_system e = ''Darwin''
            then Inr (map (\<lambda>k. k @ ''.'' @ version pkg) (pc_libraries pkg))
            else if platform_system e = ''Linux''
            then Inr (map (\<lambda>k. '':lib'' @ k @ ''.so.'' @ version pkg) (pc_libraries pkg))
            else Inl RuntimeError_unsupported_platform)
      else Inr (pc_libraries pkg))
   \<and> map_sum id par_libraries (add_package e u s st pkg)
       = map_sum id (\<lambda>libs. par_libraries st @ libs) (decorate_libraries e pkg)
   \<and> map_sum id pkg_libraries (add_package e u s st pkg)
       = map_sum id (\<lambda>libs. pkg_libraries st @ libs) (decorate_libraries e pkg)
   \<and> (Extension_init e inst h nm kw = Inr (x, h') \<longrightarrow>
        (\<exists>reqs resolved.
           normalize_requirements (map (\<lambda>k. str_lower (str_strip k)) (as_list (kw_packages kw)))
             = Inr reqs
           \<and> check_packages (pkg_config_db inst)
                (snd (extract_boost reqs (as_list (kw_boost_modules kw)))) = Inr resolved
           \<and> (\<forall>p \<in> set resolved. \<exists>libs. decorate_libraries e p = Inr libs
                  \<and> set libs \<subseteq> set (libraries x))))"
    using Extension_init_libraries [of e inst h nm kw x h']
    by (auto simp: decorate_libraries_cases add_package_def Let_def)
  have loop: "(\<exists>p \<in> set pkgs. startswith (name p) ''bob-'')
        \<and> platform_system e \<noteq> ''Darwin'' \<and> platform_system e \<noteq> ''Linux''
      \<longrightarrow> add_packages e u s st pkgs = Inl RuntimeError_unsupported_platform"
    using add_packages_unsupported [of pkgs e u s st] by blast
  have ctor: "normalize_requirements (map (\<lambda>k. str_lower (str_strip k)) (as_list (kw_packages kw)))
          = Inr rs
        \<and> get_bob_libraries e inst (kw_bob_packages kw) = Inr bob
        \<and> generate_self_macros e nm (kw_version kw) = Inr ms
        \<and> ref_or_new (kw_system_include_dirs kw) h = (sys, h1)
        \<and> ref_or_new (kw_include_dirs kw) h1 = (usr, h2)
        \<and> resolve_boost inst (fst (extract_boost rs (as_list (kw_boost_modules kw))))
              (as_list (kw_boost_modules kw)) usr sys (init_assembly e h2 ms (fst (snd bob)))
            = Inr st1
        \<and> check_packages (pkg_config_db inst)
              (snd (extract_boost rs (as_list (kw_boost_modules kw)))) = Inr res
        \<and> (\<exists>p \<in> set res. startswith (name p) ''bob-'')
        \<and> platform_system e \<noteq> ''Darwin'' \<and> platform_system e \<noteq> ''Linux''
      \<longrightarrow> Extension_init e inst h nm kw = Inl RuntimeError_unsupported_platform"
    using Extension_init_unsupported [of kw rs e inst bob nm ms h sys h1 usr h2 st1 res]
    by blast
  from step loop ctor show ?thesis
    by blast
qed

theorem sibling_library_decoration_witness:
  "decorate_libraries (example_env\<lparr>platform_system := ''Darwin''\<rparr>)
       ((example_package ''1.0'' [''bob_core''])\<lparr>name := ''bob-core''\<rparr>) = Inr [''bob_core.1.0'']
   \<and> decorate_libraries example_env
       ((example_package ''1.0'' [''bob_core''])\<lparr>name := ''bob-core''\<rparr>) = Inr ['':libbob_core.so.1.0'']
   \<and> decorate_libraries (example_env\<lparr>platform_system := ''Windows''\<rparr>)
       ((example_package ''1.0'' [''bob_core''])\<lparr>name := ''bob-core''\<rparr>)
         = Inl RuntimeError_unsupported_platform
   \<and> decorate_libraries (example_env\<lparr>platform_system := ''Windows''\<rparr>)
       ((example_package ''0.10'' [''blitz''])\<lparr>name := ''blitz''\<rparr>) = Inr [''blitz'']
   \<and> (\<exists>x h'. Extension_init example_env example_installed [] ''bob.core._lib''
                 (no_kwargs\<lparr>kw_packages := Some (PyStr ''bob-core'')\<rparr>) = Inr (x, h')
          \<and> '':libbob_core.so.1.0'' \<in> set (libraries x))
   \<and> Extension_init (example_env\<lparr>platform_system := ''Windows''\<rparr>) example_installed []
         ''bob.core._lib'' (no_kwargs\<lparr>kw_packages := Some (PyStr ''bob-core'')\<rparr>)
       = Inl RuntimeError_unsupported_platform
   \<and> Extension_init (example_env\<lparr>platform_system := ''Windows''\<rparr>) example_installed []
         ''bob.core._lib''
         (no_kwargs\<lparr>kw_packages := Some (PyList [''blitz'', ''bob-core''])\<rparr>)
       = Inl RuntimeError_unsupported_platform"
proof -
  let ?kw = "no_kwargs\<lparr>kw_packages := Some (PyStr ''bob-core'')\<rparr>"
  let ?kw2 = "no_kwargs\<lparr>kw_packages := Some (PyList [''blitz'', ''bob-core''])\<rparr>"
  let ?p = "(example_package ''1.0'' [''bob_core''])\<lparr>name := ''bob-core''\<rparr>"
  let ?q = "(example_package ''0.10'' [''blitz''])\<lparr>name := ''blitz''\<rparr>"
  let ?w = "example_env\<lparr>platform_system := ''Windows''\<rparr>"
  have dec: "decorate_libraries example_env ?p = Inr ['':libbob_core.so.1.0'']"
    using sibling_library_decoration [of example_env ?p]
    by (simp add: example_env_def example_package_def startswith_def)
  have first: "decorate_libraries (example_env\<lparr>platform_system := ''Darwin''\<rparr>) ?p
        = Inr [''bob_core.1.0'']
      \<and> decorate_libraries ?w ?p = Inl RuntimeError_unsupported_platform
      \<and> decorate_libraries ?w ?q = Inr [''blitz'']"
    using sibling_library_decoration [of "example_env\<lparr>platform_system := ''Darwin''\<rparr>" ?p]
      sibling_library_decoration [of ?w ?p]
      sibling_library_decoration [of ?w ?q]
    by (simp add: example_env_def example_package_def startswith_def)
  have "\<not> isl (Extension_init example_env example_installed [] ''bob.core._lib'' ?kw)"
    by code_simp
  then obtain x h' where ev: "Extension_init example_env example_installed [] ''bob.core._lib'' ?kw
      = Inr (x, h')"
    by (cases "Extension_init example_env example_installed [] ''bob.core._lib'' ?kw") auto
  have reqs: "normalize_requirements (map (\<lambda>k. str_lower (str_strip k)) (as_list (kw_packages ?kw)))
      = Inr [''bob-core'']"
    by code_simp
  have res: "check_packages (pkg_config_db example_installed)
      (snd (extract_boost [''bob-core''] (as_list (kw_boost_modules ?kw)))) = Inr [?p]"
    by code_simp
  note pipeline = sibling_library_decoration [of example_env ?p _ _ _ example_installed "[]"
      "''bob.core._lib''" ?kw x h', THEN conjunct2, THEN conjunct2, THEN conjunct2,
      THEN conjunct1, rule_format]
  from pipeline [OF ev] reqs res
  have "\<exists>libs. decorate_libraries example_env ?p = Inr libs \<and> set libs \<subseteq> set (libraries x)"
    by auto
  with dec have lib: "'':libbob_core.so.1.0'' \<in> set (libraries x)" by auto
  have plat: "platform_system ?w \<noteq> ''Darwin'' \<and> platform_system ?w \<noteq> ''Linux''"
    by simp
  have bobp: "startswith (name ?p) ''bob-''"
    by (simp add: startswith_def)
  have "\<not> isl (get_bob_libraries ?w example_installed (kw_bob_packages ?kw))"
    by code_simp
  then obtain bob where bob: "get_bob_libraries ?w example_installed (kw_bob_packages ?kw) = Inr bob"
    by (cases "get_bob_libraries ?w example_installed (kw_bob_packages ?kw)") auto
  have "\<not> isl (generate_self_macros ?w ''bob.core._lib'' (kw_version ?kw))"
    by code_simp
  then obtain ms where ms: "generate_self_macros ?w ''bob.core._lib'' (kw_version ?kw) = Inr ms"
    by (cases "generate_self_macros ?w ''bob.core._lib'' (kw_version ?kw)") auto
  obtain sys h1 where sys: "ref_or_new (kw_system_include_dirs ?kw) [] = (sys, h1)"
    by (cases "ref_or_new (kw_system_include_dirs ?kw) []") auto
  obtain usr h2 where usr: "ref_or_new (kw_include_dirs ?kw) h1 = (usr, h2)"
    by (cases "ref_or_new (kw_include_dirs ?kw) h1") auto
  have nb: "fst (extract_boost [''bob-core''] (as_list (kw_boost_modules ?kw))) = []"
    by code_simp
  have boost: "resolve_boost example_installed
      (fst (extract_boost [''bob-core''] (as_list (kw_boost_modules ?kw))))
      (as_list (kw_boost_modules ?kw)) usr sys (init_assembly ?w h2 ms (fst (snd bob)))
      = Inr (init_assembly ?w h2 ms (fst (snd bob)))"
    unfolding nb by (simp add: resolve_boost_def)
  have win: "Extension_init ?w example_installed [] ''bob.core._lib'' ?kw
      = Inl RuntimeError_unsupported_platform"
    using sibling_library_decoration [of ?w _ _ _ _ example_installed "[]" "''bob.core._lib''" ?kw
        _ _ _ "[''bob-core'']" bob ms sys h1 usr h2 "init_assembly ?w h2 ms (fst (snd bob))" "[?p]"]
      reqs bob ms sys usr boost res bobp plat
    by simp
  have reqs2: "normalize_requirements (map (\<lambda>k. str_lower (str_strip k)) (as_list (kw_packages ?kw2)))
      = Inr [''blitz'', ''bob-core'']"
    by code_simp
  have res2: "check_packages (pkg_config_db example_installed)
      (snd (extract_boost [''blitz'', ''bob-core''] (as_list (kw_boost_modules ?kw2)))) = Inr [?q, ?p]"
    by code_simp
  have nb2: "fst (extract_boost [''blitz'', ''bob-core''] (as_list (kw_boost_modules ?kw2))) = []"
    by code_simp
  have boost2: "resolve_boost example_installed
      (fst (extract_boost [''blitz'', ''bob-core''] (as_list (kw_boost_modules ?kw2))))
      (as_list (kw_boost_modules ?kw2)) usr sys (init_assembly ?w h2 ms (fst (snd bob)))
      = Inr (init_assembly ?w h2 ms (fst (snd bob)))"
    unfolding nb2 by (simp add: resolve_boost_def)
  have same: "kw_bob_packages ?kw2 = kw_bob_packages ?kw" "kw_version ?kw2 = kw_version ?kw"
    "kw_system_include_dirs ?kw2 = kw_system_include_dirs ?kw"
    "kw_include_dirs ?kw2 = kw_include_dirs ?kw"
    by simp_all
  have bobp2: "\<exists>p \<in> set [?q, ?p]. startswith (name p) ''bob-''"
    using bobp by simp
  have win2: "Extension_init ?w example_installed [] ''bob.core._lib'' ?kw2
      = Inl RuntimeError_unsupported_platform"
    using sibling_library_decoration [of ?w _ _ _ _ example_installed "[]" "''bob.core._lib''" ?kw2
        _ _ _ "[''blitz'', ''bob-core'']" bob ms sys h1 usr h2
        "init_assembly ?w h2 ms (fst (snd bob))" "[?q, ?p]"]
      reqs2 bob ms sys usr boost2 res2 bobp2 plat same
    by simp
  from ev dec first lib win win2 show ?thesis by blast
qed

subsection \<open>Libraries first, extensions afterwards\<close>

text \<open>
  Claim C9. When every library target builds, \<^verbatim>\<open>run\<close> hands on exactly the extension
  targets, in their order, each with the names of all library targets in front of its
  libraries, their target directories in front of its library directories, and their
  \<^verbatim>\<open>include\<close> subdirectories in front of its include directories, all in declaration
  order. For one library \<open>L\<close> and one extension \<open>E\<close> without libraries, declared in
  either order, the libraries of \<open>E\<close> become the name of \<open>L\<close> alone.
\<close>

theorem build_ext_run_two_phase:
  assumes "\<forall>l \<in> set (library_targets (extensions self)).
             compile l (os_path_join (build_lib self) (ext_name l))"
  shows "\<exists>self'. build_ext_run compile self = Inr self'
     \<and> build_lib self' = build_lib self
     \<and> extensions self' =
         map (\<lambda>x. ExtensionT (x\<lparr>
                libraries := map c_name (library_targets (extensions self)) @ libraries x,
                library_dirs :=
                  map c_target_directory (library_targets (extensions self)) @ library_dirs x,
                include_dirs :=
                  map (\<lambda>l. os_path_join (c_target_directory l) ''include'')
                    (library_targets (extensions self)) @ include_dirs x\<rparr>))
           (extension_targets (extensions self))
     \<and> (\<forall>L E. (extensions self = [LibraryT L, ExtensionT E]
                 \<or> extensions self = [ExtensionT E, LibraryT L]) \<and> libraries E = []
          \<longrightarrow> (\<exists>E'. extensions self' = [ExtensionT E'] \<and> libraries E' = [c_name L]))"
  using build_libraries_Inr [of "extensions self" compile "build_lib self" "[]" "[]" "[]"] assms
  by (auto simp: build_ext_run_def map_set_defaults)

theorem build_ext_run_two_phase_witness:
  "\<exists>self' E'.
     build_ext_run (\<lambda>l dir. True)
       \<lparr>extensions = [LibraryT example_library, ExtensionT example_extension],
        build_lib = ''build/lib''\<rparr> = Inr self'
     \<and> extensions self' = [ExtensionT E'] \<and> libraries E' = [''bob_core'']"
proof -
  have ok: "\<forall>l \<in> set (library_targets (extensions
        \<lparr>extensions = [LibraryT example_library, ExtensionT example_extension],
         build_lib = ''build/lib''\<rparr>)). (\<lambda>l dir. True) l (os_path_join (build_lib
        \<lparr>extensions = [LibraryT example_library, ExtensionT example_extension],
         build_lib = ''build/lib''\<rparr>) (ext_name l))"
    by simp
  have none: "libraries example_extension = []" by (simp add: example_extension_def)
  have nm: "c_name example_library = ''bob_core''" by (simp add: example_library_def)
  from build_ext_run_two_phase [OF ok] none nm show ?thesis
    by (auto simp del: map_append)
qed

subsection \<open>The caller's include directories\<close>

text \<open>
  Claim C10 says that the constructor leaves every list of the caller unmodified.
  \<^verbatim>\<open>kwargs.setdefault('include_dirs', [])\<close> returns the caller's own list when one was
  passed, and line 377 appends the package's include directory to it. Whenever the
  constructor returns and a list of include directories was passed, that list is longer
  afterwards, with its former content in front. Called with the list
  \<^verbatim>\<open>['/my/include']\<close> at reference 0, the constructor leaves
  \<^verbatim>\<open>['/my/include', '/site/bob.extension/include']\<close> there.
\<close>

theorem Extension_init_appends_to_include_dirs:
  "(Extension_init e inst h nm kw = Inr (x, h') \<and> kw_include_dirs kw = Some r \<and> r < length h
      \<longrightarrow> prefix (h ! r) (h' ! r) \<and> length (h ! r) < length (h' ! r))
   \<and> Extension_init example_env example_installed [[''/my/include'']] ''bob.core._lib''
       (no_kwargs\<lparr>kw_include_dirs := Some 0\<rparr>)
     = Inr (example_extension\<lparr>include_dirs := [''/my/include'', ''/site/bob.extension/include'']\<rparr>,
            [[''/my/include'', ''/site/bob.extension/include''], [], []])"
proof -
  have "Extension_init example_env example_installed [[''/my/include'']] ''bob.core._lib''
       (no_kwargs\<lparr>kw_include_dirs := Some 0\<rparr>)
     = Inr (example_extension\<lparr>include_dirs := [''/my/include'', ''/site/bob.extension/include'']\<rparr>,
            [[''/my/include'', ''/site/bob.extension/include''], [], []])"
    by code_simp
  moreover have "prefix (h ! r) (h' ! r) \<and> length (h ! r) < length (h' ! r)"
    if "Extension_init e inst h nm kw = Inr (x, h')" and "kw_include_dirs kw = Some r"
      and "r < length h"
    using Extension_init_store [OF that(1)] that(2,3) by (simp add: heap_grows_def)
  ultimately show ?thesis by blast
qed

theorem Extension_init_appends_to_include_dirs_witness:
  "\<exists>x h'. Extension_init (example_env\<lparr>platform_system := ''Darwin''\<rparr>) example_installed
              [[''/sys''], [''/my/include'']] ''bob.core._lib''
              (no_kwargs\<lparr>kw_include_dirs := Some 1, kw_system_include_dirs := Some 0,
                 kw_packages := Some (PyStr ''blitz'')\<rparr>) = Inr (x, h')
     \<and> length [''/my/include''] < length (h' ! 1)"
proof -
  let ?e = "example_env\<lparr>platform_system := ''Darwin''\<rparr>"
  let ?kw = "no_kwargs\<lparr>kw_include_dirs := Some 1, kw_system_include_dirs := Some 0,
                 kw_packages := Some (PyStr ''blitz'')\<rparr>"
  let ?h = "[[''/sys''], [''/my/include'']]"
  have "\<not> isl (Extension_init ?e example_installed ?h ''bob.core._lib'' ?kw)"
    by code_simp
  then obtain x h' where ev: "Extension_init ?e example_installed ?h ''bob.core._lib'' ?kw = Inr (x, h')"
    by (cases "Extension_init ?e example_installed ?h ''bob.core._lib'' ?kw") auto
  have r: "kw_include_dirs ?kw = Some 1" by simp
  have lt: "(1::nat) < length ?h" by simp
  from Extension_init_appends_to_include_dirs [of ?e example_installed ?h "''bob.core._lib''" ?kw
      x h' 1] ev r lt
  have "length (?h ! 1) < length (h' ! 1)" by blast
  then have "length [''/my/include''] < length (h' ! 1)" by simp
  with ev show ?thesis by blast
qed

end
